theory Spec2Isabelle
  imports Main "HOL-Library.Word" "HOL-Library.Sublist"
begin

section \<open>C strings and the C library\<close>

text \<open>
  A C string is modelled by the list of its bytes before the terminating NUL: the end
  of the list is the terminator, and a pointer into the string is the suffix that
  starts there. A \<open>char *\<close> that may be \<open>NULL\<close> is a \<open>string option\<close>.
\<close>

abbreviation dquote :: char where "dquote \<equiv> CHR 0x22"
abbreviation bslash :: char where "bslash \<equiv> CHR 0x5C"
abbreviation newline :: char where "newline \<equiv> CHR 0x0A"

text \<open>\<open>isspace\<close> of the C locale: space, \<open>\t \n \v \f \r\<close>.\<close>

definition isspace :: "char \<Rightarrow> bool" where
  "isspace c = (c = CHR '' '' \<or> (9 \<le> (of_char c :: nat) \<and> (of_char c :: nat) \<le> 13))"

definition isdigit :: "char \<Rightarrow> bool" where
  "isdigit c = (48 \<le> (of_char c :: nat) \<and> (of_char c :: nat) \<le> 57)"

definition digit_value :: "char \<Rightarrow> int" where
  "digit_value c = int (of_char c) - 48"

definition LONG_MAX :: int where "LONG_MAX = 2 ^ 63 - 1"
definition LONG_MIN :: int where "LONG_MIN = - (2 ^ 63)"

text \<open>
  \<open>strtol (s, &endp, 10)\<close> of the C library (ISO C 7.22.1.4, with a 64-bit \<open>long\<close>):
  white space is skipped, then an optional sign, then the longest run of decimal
  digits is converted; a value out of range is clamped to \<open>LONG_MIN\<close> or \<open>LONG_MAX\<close>.
  The result is \<open>None\<close> when no digit was found (the C function then leaves
  \<open>endp = s\<close>), and otherwise the value with the text at \<open>endp\<close>.
\<close>

fun strtol_digits :: "int \<Rightarrow> string \<Rightarrow> int \<times> string" where
  "strtol_digits acc [] = (acc, [])"
| "strtol_digits acc (c # cs) =
     (if isdigit c then strtol_digits (acc * 10 + digit_value c) cs else (acc, c # cs))"

definition strtol_unsigned :: "bool \<Rightarrow> string \<Rightarrow> (int \<times> string) option" where
  "strtol_unsigned neg s =
     (case s of
        [] \<Rightarrow> None
      | c # cs \<Rightarrow>
          if isdigit c then
            (let (v, rest) = strtol_digits 0 s
             in Some (if neg then max LONG_MIN (- v) else min LONG_MAX v, rest))
          else None)"

definition strtol10 :: "string \<Rightarrow> (int \<times> string) option" where
  "strtol10 s =
     (case dropWhile isspace s of
        [] \<Rightarrow> None
      | c # cs \<Rightarrow>
          if c = CHR ''-'' then strtol_unsigned True cs
          else if c = CHR ''+'' then strtol_unsigned False cs
          else strtol_unsigned False (c # cs))"

text \<open>The conversion \<open>(int) v\<close> of a \<open>long\<close>: the low 32 bits, read as two's complement.\<close>

definition int_of_long :: "int \<Rightarrow> int" where
  "int_of_long v = sint (word_of_int v :: 32 word)"

text \<open>
  \<open>strstr (hay, needle)\<close>: the suffix of \<open>hay\<close> at the first occurrence of \<open>needle\<close>.
\<close>

fun strstr :: "string \<Rightarrow> string \<Rightarrow> string option" where
  "strstr [] needle = (if needle = [] then Some [] else None)"
| "strstr (c # cs) needle =
     (if prefix needle (c # cs) then Some (c # cs) else strstr cs needle)"

text \<open>
  A \<open>char *\<close> handed on by \<open>g_string_free (gs, FALSE)\<close> is read as a C string: the bytes
  of the buffer before its first NUL.
\<close>

definition c_str :: "string \<Rightarrow> string" where
  "c_str buf = takeWhile (\<lambda>c. c \<noteq> CHR 0x00) buf"

text \<open>
  GLib's locale-free character classes: \<open>g_ascii_isspace\<close> holds of space and of
  \<open>\t \n \f \r\<close>; \<open>g_ascii_xdigit_value\<close> is -1 on a character that is no hex digit.
\<close>

definition g_ascii_isspace :: "char \<Rightarrow> bool" where
  "g_ascii_isspace c =
     (c = CHR '' '' \<or> c = CHR 0x09 \<or> c = CHR 0x0A \<or> c = CHR 0x0C \<or> c = CHR 0x0D)"

definition g_ascii_xdigit_value :: "char \<Rightarrow> int" where
  "g_ascii_xdigit_value c =
     (let n = int (of_char c) in
      if 48 \<le> n \<and> n \<le> 57 then n - 48
      else if 97 \<le> n \<and> n \<le> 102 then n - 97 + 10
      else if 65 \<le> n \<and> n \<le> 70 then n - 65 + 10
      else - 1)"

definition g_ascii_isxdigit :: "char \<Rightarrow> bool" where
  "g_ascii_isxdigit c = (0 \<le> g_ascii_xdigit_value c)"

section \<open>The micro JSON reader (\<open>gui/ai_assistant.c\<close>)\<close>

fun json_skip_ws :: "string \<Rightarrow> string" where
  "json_skip_ws [] = []"
| "json_skip_ws (c # p) = (if g_ascii_isspace c then json_skip_ws p else c # p)"

text \<open>
  The test \<open>g_ascii_isxdigit (p[0]) && ... && g_ascii_isxdigit (p[3])\<close>: it stops at the
  terminator, which is no hex digit.
\<close>

fun four_xdigits :: "string \<Rightarrow> bool" where
  "four_xdigits (p0 # p1 # p2 # p3 # p) =
     (g_ascii_isxdigit p0 \<and> g_ascii_isxdigit p1 \<and> g_ascii_isxdigit p2 \<and> g_ascii_isxdigit p3)"
| "four_xdigits p = False"

text \<open>The character appended for \<open>\uXXXX\<close> once the four hex digits at \<open>p\<close> are checked.\<close>

definition u_escape_char :: "string \<Rightarrow> char" where
  "u_escape_char p =
     (if p ! 0 = CHR ''0'' \<and> p ! 1 = CHR ''0''
      then char_of ((g_ascii_xdigit_value (p ! 2) * 16) + g_ascii_xdigit_value (p ! 3))
      else CHR ''?'')"

text \<open>
  The loop of \<open>json_parse_string\<close> after the opening quote: \<open>esc\<close> is the flag of the
  source, \<open>gs\<close> the bytes appended so far. It returns the buffer and the position just
  after the closing quote, or \<open>None\<close> when the text ends first.
\<close>

fun json_parse_string_loop :: "bool \<Rightarrow> string \<Rightarrow> string \<Rightarrow> (string \<times> string) option" where
  "json_parse_string_loop esc gs [] = None"
| "json_parse_string_loop True gs (c # p) =
     (if c = dquote then json_parse_string_loop False (gs @ [dquote]) p
      else if c = bslash then json_parse_string_loop False (gs @ [bslash]) p
      else if c = CHR ''/'' then json_parse_string_loop False (gs @ [CHR ''/'']) p
      else if c = CHR ''b'' then json_parse_string_loop False (gs @ [CHR 0x08]) p
      else if c = CHR ''f'' then json_parse_string_loop False (gs @ [CHR 0x0C]) p
      else if c = CHR ''n'' then json_parse_string_loop False (gs @ [CHR 0x0A]) p
      else if c = CHR ''r'' then json_parse_string_loop False (gs @ [CHR 0x0D]) p
      else if c = CHR ''t'' then json_parse_string_loop False (gs @ [CHR 0x09]) p
      else if c = CHR ''u'' then
        (if four_xdigits p
         then json_parse_string_loop False (gs @ [u_escape_char p]) (drop 4 p)
         else json_parse_string_loop False (gs @ [CHR ''?'']) p)
      else json_parse_string_loop False (gs @ [c]) p)"
| "json_parse_string_loop False gs (c # p) =
     (if c = bslash then json_parse_string_loop True gs p
      else if c = dquote then Some (gs, p)
      else json_parse_string_loop False (gs @ [c]) p)"

definition json_parse_string :: "string \<Rightarrow> (string \<times> string) option" where
  "json_parse_string pp =
     (case json_skip_ws pp of
        [] \<Rightarrow> None
      | c # p \<Rightarrow> if c \<noteq> dquote then None else json_parse_string_loop False [] p)"

definition json_parse_int :: "string \<Rightarrow> (int \<times> string) option" where
  "json_parse_int pp =
     (case json_skip_ws pp of
        [] \<Rightarrow> None
      | c # p \<Rightarrow>
          (case strtol10 (c # p) of
             None \<Rightarrow> None
           | Some (v, endp) \<Rightarrow> Some (int_of_long v, endp)))"

text \<open>
  The loop of \<open>json_match_closing\<close>: \<open>i\<close> is the offset of the character at hand from
  the opening delimiter, \<open>depth\<close>, \<open>in_str\<close> and \<open>esc\<close> are the variables of the source.
  The result is the offset of the closing delimiter.
\<close>

fun json_match_closing_loop ::
  "char \<Rightarrow> char \<Rightarrow> int \<Rightarrow> bool \<Rightarrow> bool \<Rightarrow> nat \<Rightarrow> string \<Rightarrow> nat option" where
  "json_match_closing_loop opn cls depth in_str esc i [] = None"
| "json_match_closing_loop opn cls depth in_str esc i (c # p) =
     (if in_str then
        (if esc then json_match_closing_loop opn cls depth True False (Suc i) p
         else if c = bslash then json_match_closing_loop opn cls depth True True (Suc i) p
         else if c = dquote then json_match_closing_loop opn cls depth False False (Suc i) p
         else json_match_closing_loop opn cls depth True False (Suc i) p)
      else if c = dquote then json_match_closing_loop opn cls depth True esc (Suc i) p
      else if c = opn then json_match_closing_loop opn cls (depth + 1) False esc (Suc i) p
      else if c = cls then
        (if depth - 1 = 0 then Some i
         else json_match_closing_loop opn cls (depth - 1) False esc (Suc i) p)
      else json_match_closing_loop opn cls depth False esc (Suc i) p)"

definition json_match_closing :: "string \<Rightarrow> char \<Rightarrow> char \<Rightarrow> nat option" where
  "json_match_closing p opn cls =
     (case p of
        [] \<Rightarrow> None
      | c # cs \<Rightarrow>
          if c \<noteq> opn then None
          else json_match_closing_loop opn cls 0 False False 0 p)"

lemma strstr_length: "strstr hay needle = Some r \<Longrightarrow> length r \<le> length hay"
  by (induction hay) (auto split: if_splits)

text \<open>
  The search loop of \<open>json_find_field_value_start\<close>, with \<open>pat\<close> the quoted field name:
  every occurrence of \<open>pat\<close> is tried in turn, the search resuming one character
  after an occurrence that no colon follows. (\<open>pat\<close> is never empty, so an occurrence
  is never at the terminator.)
\<close>

function json_find_field_loop :: "string \<Rightarrow> string \<Rightarrow> string option" where
  "json_find_field_loop pat p =
     (case strstr p pat of
        None \<Rightarrow> None
      | Some p' \<Rightarrow>
          (case json_skip_ws (drop (length pat) p') of
             [] \<Rightarrow> (case p' of [] \<Rightarrow> None | c' # p1 \<Rightarrow> json_find_field_loop pat p1)
           | c # q \<Rightarrow>
               if c = CHR '':'' then Some (json_skip_ws q)
               else (case p' of [] \<Rightarrow> None | c' # p1 \<Rightarrow> json_find_field_loop pat p1)))"
  by pat_completeness auto
termination
  by (relation "measure (\<lambda>(pat, p). length p)") (auto dest: strstr_length)

declare json_find_field_loop.simps [simp del]

definition json_find_field_value_start :: "string \<Rightarrow> string \<Rightarrow> string option" where
  "json_find_field_value_start json field =
     json_find_field_loop ([dquote] @ field @ [dquote]) json"

text \<open>The caller of \<open>json_extract_string_field\<close> receives the buffer as a \<open>char *\<close>.\<close>

definition json_extract_string_field :: "string \<Rightarrow> string \<Rightarrow> string option" where
  "json_extract_string_field json field =
     (case json_find_field_value_start json field of
        None \<Rightarrow> None
      | Some p \<Rightarrow>
          (case json_parse_string p of
             None \<Rightarrow> None
           | Some (s, p') \<Rightarrow> Some (c_str s)))"

text \<open>
  The span extractors return \<open>pstart\<close> as the text from the opening delimiter and
  \<open>pend\<close> as the offset of the closing delimiter from \<open>pstart\<close>.
\<close>

definition json_extract_span :: "char \<Rightarrow> char \<Rightarrow> string \<Rightarrow> string \<Rightarrow> (string \<times> nat) option" where
  "json_extract_span opn cls json field =
     (case json_find_field_value_start json field of
        None \<Rightarrow> None
      | Some p0 \<Rightarrow>
          (case json_skip_ws p0 of
             [] \<Rightarrow> None
           | c # cs \<Rightarrow>
               if c \<noteq> opn then None
               else
                 (case json_match_closing (c # cs) opn cls of
                    None \<Rightarrow> None
                  | Some q \<Rightarrow> Some (c # cs, q))))"

definition json_extract_object_span :: "string \<Rightarrow> string \<Rightarrow> (string \<times> nat) option" where
  "json_extract_object_span json field = json_extract_span CHR ''{'' CHR ''}'' json field"

definition json_extract_array_span :: "string \<Rightarrow> string \<Rightarrow> (string \<times> nat) option" where
  "json_extract_array_span json field = json_extract_span CHR ''['' CHR '']'' json field"

section \<open>The reply model (\<open>gui/ai_assistant.c\<close>)\<close>

record AiSnapshot =
  dataset :: "string option"
  last_error :: "string option"
  script_selection :: "string option"
  script_full :: "string option"
  command_log :: "string option"
  last_model_simple :: "string option"
  last_model_full :: "string option"

record AiToolCall =
  name :: string
  n_lines :: int
  style :: "string option"

record AiLLMReply =
  assistant_text :: "string option"
  proposed_insert :: "string option"
  tool_calls :: "AiToolCall list"

text \<open>
  The body of the loop of \<open>parse_llm_json_reply\<close> for one object \<open>obj\<close> of the array:
  \<open>None\<close> when the object has no usable \<open>name\<close> (the entry is skipped), and otherwise
  the tool call, \<open>n_lines\<close> starting at 50 and \<open>style\<close> at \<open>NULL\<close>.
\<close>

definition parse_tool_call :: "string \<Rightarrow> AiToolCall option" where
  "parse_tool_call obj =
     (case json_extract_string_field obj ''name'' of
        None \<Rightarrow> None
      | Some nm \<Rightarrow>
          (let tc = \<lparr>name = nm, n_lines = 50, style = None\<rparr> in
           Some
             (case json_extract_object_span obj ''args'' of
                None \<Rightarrow> tc
              | Some (args_start, args_end) \<Rightarrow>
                  (let args = take (args_end + 1) args_start in
                   if nm = ''get_command_log_tail'' then
                     (case json_find_field_value_start args ''n_lines'' of
                        None \<Rightarrow> tc
                      | Some vp \<Rightarrow>
                          (case json_parse_int vp of
                             None \<Rightarrow> tc
                           | Some (v, vp') \<Rightarrow> tc\<lparr>n_lines := v\<rparr>))
                   else if nm = ''get_last_model_summary'' then
                     tc\<lparr>style := json_extract_string_field args ''style''\<rparr>
                   else tc))))"

lemma json_skip_ws_length: "length (json_skip_ws p) \<le> length p"
  by (induction p) auto

text \<open>
  The loop \<open>while (p < aend)\<close> of \<open>parse_llm_json_reply\<close>: \<open>a\<close> is the text from the
  opening bracket on, \<open>aend\<close> the offset of the closing bracket, \<open>i\<close> the offset of
  \<open>p\<close>, and \<open>calls\<close> the array \<open>r->tool_calls\<close> so far.
\<close>

function parse_tool_calls_loop :: "string \<Rightarrow> nat \<Rightarrow> nat \<Rightarrow> AiToolCall list \<Rightarrow> AiToolCall list" where
  "parse_tool_calls_loop a aend i calls =
     (if i < aend then
        (let p = json_skip_ws (drop i a);
             i1 = i + (length (drop i a) - length p)
         in case p of
              [] \<Rightarrow> calls
            | c # cs \<Rightarrow>
                if c = CHR '','' then parse_tool_calls_loop a aend (i1 + 1) calls
                else if c \<noteq> CHR ''{'' then calls
                else
                  (case json_match_closing p CHR ''{'' CHR ''}'' of
                     None \<Rightarrow> calls
                   | Some obj_end \<Rightarrow>
                       if i1 + obj_end > aend then calls
                       else
                         (case parse_tool_call (take (obj_end + 1) p) of
                            None \<Rightarrow> parse_tool_calls_loop a aend (i1 + obj_end + 1) calls
                          | Some tc \<Rightarrow>
                              parse_tool_calls_loop a aend (i1 + obj_end + 1) (calls @ [tc]))))
      else calls)"
  by pat_completeness auto
termination
  by (relation "measure (\<lambda>(a, aend, i, calls). aend - i)") auto

declare parse_tool_calls_loop.simps [simp del]

text \<open>\<open>parse_llm_json_reply\<close> on a text that is not \<open>NULL\<close>.\<close>

definition parse_llm_json_reply :: "string \<Rightarrow> AiLLMReply" where
  "parse_llm_json_reply json =
     (let r = \<lparr>assistant_text = json_extract_string_field json ''assistant_text'',
              proposed_insert = json_extract_string_field json ''proposed_insert'',
              tool_calls = []\<rparr>
      in case json_extract_array_span json ''tool_calls'' of
           None \<Rightarrow> r
         | Some (astart, aend) \<Rightarrow> r\<lparr>tool_calls := parse_tool_calls_loop astart aend 1 []\<rparr>)"

definition ends_with_newline :: "string \<Rightarrow> string" where
  "ends_with_newline gs = (if gs \<noteq> [] \<and> last gs \<noteq> newline then gs @ [newline] else gs)"

definition format_llm_reply_for_display :: "AiLLMReply \<Rightarrow> string \<Rightarrow> string" where
  "format_llm_reply_for_display r fallback =
     (let gs0 = (case assistant_text r of None \<Rightarrow> [] | Some t \<Rightarrow> t);
          gs1 = (case proposed_insert r of
                   None \<Rightarrow> gs0
                 | Some ins \<Rightarrow>
                     if ins = [] then gs0
                     else ends_with_newline
                       ((if gs0 \<noteq> [] then gs0 @ [newline, newline] else gs0)
                          @ ''[Proposed script]'' @ [newline] @ ins))
      in if gs1 = [] then fallback else gs1)"

section \<open>The tool executor (\<open>gui/ai_assistant.c\<close>)\<close>

text \<open>
  The backward scan of \<open>tail_n_lines\<close>: \<open>p\<close> is the offset of the pointer \<open>p\<close> in \<open>s\<close>
  \<open>nl\<close> the line count asked for and \<open>n\<close> the newlines counted so far; the result
  is the offset the copy starts at.
\<close>

fun tail_scan :: "string \<Rightarrow> int \<Rightarrow> nat \<Rightarrow> int \<Rightarrow> nat" where
  "tail_scan s nl 0 n = 0"
| "tail_scan s nl (Suc p) n =
     (if s ! p = newline then
        (if n + 1 > nl then Suc p else tail_scan s nl p (n + 1))
      else tail_scan s nl p n)"

text \<open>\<open>tail_n_lines (s, n_lines)\<close>, with \<open>nl0\<close> the argument \<open>n_lines\<close>.\<close>

definition tail_n_lines :: "string option \<Rightarrow> int \<Rightarrow> string" where
  "tail_n_lines s0 nl0 =
     (case s0 of
        None \<Rightarrow> ''(none)'' @ [newline]
      | Some s \<Rightarrow>
          (let nl = (if nl0 \<le> 0 then 50 else nl0);
               out = drop (tail_scan s nl (length s) 0) s
           in if length out > 32000 then take 32000 out else out))"

definition tool_header :: "string \<Rightarrow> string" where
  "tool_header nm = ''--- tool:'' @ nm @ '' ---'' @ [newline]"

definition tool_footer :: string where
  "tool_footer = ''--- end ---'' @ [newline]"

text \<open>The snapshot string a tool name selects (\<open>out\<close> of the source, \<open>NULL\<close> as \<open>None\<close>).\<close>

definition tool_source :: "AiToolCall \<Rightarrow> AiSnapshot \<Rightarrow> string option" where
  "tool_source tc snap =
     (if name tc = ''get_dataset_summary'' then dataset snap
      else if name tc = ''get_last_error'' then last_error snap
      else if name tc = ''get_script_selection'' then script_selection snap
      else if name tc = ''get_script_full'' then script_full snap
      else if name tc = ''get_command_log_tail'' then None
      else if name tc = ''get_last_model_summary'' then
        (if style tc = Some ''full'' then last_model_full snap else last_model_simple snap)
      else None)"

text \<open>One pass of the \<open>for\<close> loop of \<open>execute_tool_calls\<close>: the buffer \<open>gs\<close> after the call.\<close>

definition execute_tool_call :: "AiSnapshot \<Rightarrow> string \<Rightarrow> AiToolCall \<Rightarrow> string" where
  "execute_tool_call snap gs tc =
     (if name tc = ''get_command_log_tail'' \<and> command_log snap \<noteq> None then
        ends_with_newline (gs @ tool_header (name tc) @ tail_n_lines (command_log snap) (n_lines tc))
          @ tool_footer
      else
        (case tool_source tc snap of
           Some out \<Rightarrow> ends_with_newline (gs @ tool_header (name tc) @ out) @ tool_footer
         | None \<Rightarrow> gs @ tool_header (name tc) @ ''(unavailable)'' @ [newline] @ tool_footer))"

definition truncation_marker :: string where
  "truncation_marker = [newline] @ ''...[truncated]...'' @ [newline]"

definition truncate_transcript :: "string \<Rightarrow> string" where
  "truncate_transcript gs =
     (if length gs > 40000 then take 40000 gs @ truncation_marker else gs)"

text \<open>\<open>execute_tool_calls\<close> on a reply and a snapshot that are not \<open>NULL\<close>.\<close>

definition execute_tool_calls :: "AiLLMReply \<Rightarrow> AiSnapshot \<Rightarrow> string option" where
  "execute_tool_calls r snap =
     (let n = length (tool_calls r) in
      if n = 0 then None
      else
        (let n' = (if n > 8 then 8 else n) in
         Some (truncate_transcript (foldl (execute_tool_call snap) [] (take n' (tool_calls r))))))"

section \<open>The provider invoker (\<open>lib/src/gretl_llm.c\<close>)\<close>

subsection \<open>The host: environment, file system and child processes\<close>

text \<open>
  What the invoker asks of GLib and the operating system is a parameter of the model:
  \<^item> \<open>getenv\<close>;
  \<^item> \<open>g_file_test (path, G_FILE_TEST_IS_EXECUTABLE)\<close> and \<open>g_find_program_in_path\<close>;
  \<^item> \<open>g_file_open_tmp\<close>: the message of the \<open>GError\<close> (\<open>None\<close> when there is none), or
    the name of the file created;
  \<^item> \<open>g_spawn_sync\<close> on an argument vector: the message of the \<open>GError\<close>, or the captured
    standard output, standard error and wait status of the child;
  \<^item> the message \<open>g_spawn_check_exit_status\<close> gives for a wait status that is no success;
  \<^item> \<open>g_file_get_contents\<close>: the message of the \<open>GError\<close>, or the bytes of the file.
\<close>

record spawn_result =
  stdout_buf :: "string option"
  stderr_buf :: "string option"
  status :: int

record host =
  getenv :: "string \<Rightarrow> string option"
  file_is_executable :: "string \<Rightarrow> bool"
  find_program_in_path :: "string \<Rightarrow> string option"
  file_open_tmp :: "string \<Rightarrow> string option + string"
  spawn_sync :: "string list \<Rightarrow> string option + spawn_result"
  exit_status_message :: "int \<Rightarrow> string option"
  file_get_contents :: "string \<Rightarrow> string option + string"

text \<open>
  \<open>g_spawn_check_exit_status\<close> on a POSIX wait status: success is a normal exit
  (\<open>WIFEXITED\<close>: the low seven bits are zero) with exit code zero (\<open>WEXITSTATUS\<close>: bits
  8 to 15). \<open>None\<close> is success; otherwise the result is the message of the \<open>GError\<close>.
\<close>

definition g_spawn_check_exit_status :: "host \<Rightarrow> int \<Rightarrow> string option option" where
  "g_spawn_check_exit_status h st =
     (if st mod 128 = 0 \<and> (st div 256) mod 256 = 0 then None
      else Some (exit_status_message h st))"

text \<open>
  The error codes of libgretl this file returns (\<open>0\<close> is \<open>None\<close>), and gretl's global
  error channel: it is written through \<open>gretl_errmsg_set\<close> and \<open>gretl_errmsg_sprintf\<close>
  only, and the model keeps the messages handed to them, oldest first.
\<close>

datatype gretl_error = E_DATA | E_EXTERNAL | E_TOOLONG

type_synonym errchan = "string list"

definition gretl_errmsg_set :: "string \<Rightarrow> errchan \<Rightarrow> errchan" where
  "gretl_errmsg_set msg ch = ch @ [msg]"

text \<open>\<open>printf\<close>'s \<open>%d\<close>.\<close>

function string_of_nat :: "nat \<Rightarrow> string" where
  "string_of_nat n =
     (if n < 10 then [char_of (48 + n)]
      else string_of_nat (n div 10) @ [char_of (48 + n mod 10)])"
  by pat_completeness auto
termination
  by (relation "measure (\<lambda>n. n)") auto

declare string_of_nat.simps [simp del]

definition printf_d :: "int \<Rightarrow> string" where
  "printf_d i = (if i < 0 then CHR ''-'' # string_of_nat (nat (- i)) else string_of_nat (nat i))"

subsection \<open>Settings\<close>

definition GRETL_LLM_MAX_REPLY :: nat where
  "GRETL_LLM_MAX_REPLY = 2 * 1024 * 1024"

definition GRETL_LLM_DEFAULT_TIMEOUT_SEC :: int where
  "GRETL_LLM_DEFAULT_TIMEOUT_SEC = 300"

definition default_codex_bin :: string where
  "default_codex_bin = ''/home/terry/.nvm/versions/node/v24.5.0/bin/codex''"

definition default_gemini_bin :: string where
  "default_gemini_bin = ''/home/terry/.nvm/versions/node/v24.5.0/bin/gemini''"

definition llm_timeout_seconds :: "(string \<Rightarrow> string option) \<Rightarrow> int" where
  "llm_timeout_seconds env =
     (case env ''GRETL_LLM_TIMEOUT_SEC'' of
        None \<Rightarrow> GRETL_LLM_DEFAULT_TIMEOUT_SEC
      | Some s \<Rightarrow>
          if s = [] then GRETL_LLM_DEFAULT_TIMEOUT_SEC
          else
            (case strtol10 s of
               None \<Rightarrow> GRETL_LLM_DEFAULT_TIMEOUT_SEC
             | Some (v, endp) \<Rightarrow>
                 if v \<le> 0 \<or> v > 3600 then GRETL_LLM_DEFAULT_TIMEOUT_SEC
                 else int_of_long v))"

definition env_flag_set :: "string option \<Rightarrow> bool" where
  "env_flag_set v = (case v of None \<Rightarrow> False | Some s \<Rightarrow> s \<noteq> [] \<and> s \<noteq> ''0'')"

definition codex_dangerous_default :: "host \<Rightarrow> bool" where
  "codex_dangerous_default h =
     (if env_flag_set (getenv h ''GRETL_LLM_UNSAFE'') then True
      else if env_flag_set (getenv h ''GRETL_CODEX_DANGEROUS'') then True
      else False)"

definition argv_wrap_timeout :: "host \<Rightarrow> string list \<Rightarrow> string list" where
  "argv_wrap_timeout h base_argv =
     (case find_program_in_path h ''timeout'' of
        None \<Rightarrow> base_argv
      | Some timeout_bin \<Rightarrow>
          [timeout_bin, ''--signal=KILL'', printf_d (llm_timeout_seconds (getenv h)) @ ''s'']
            @ base_argv)"

subsection \<open>Classifying the exit of the child\<close>

definition timeout_status :: "int \<Rightarrow> bool" where
  "timeout_status st = (st = 124 * 2 ^ 8 \<or> st = 137 * 2 ^ 8)"

text \<open>
  The text of a captured stream, empty for \<open>NULL\<close>: the tests
  \<open>buf != NULL && *buf != '\0'\<close> of the source are \<open>captured buf \<noteq> []\<close>.
\<close>

definition captured :: "string option \<Rightarrow> string" where
  "captured buf = (case buf of None \<Rightarrow> [] | Some s \<Rightarrow> s)"

text \<open>
  \<open>check_child_status_buf\<close>: the returned code and the message stored in \<open>*errmsg\<close>
  (\<open>None\<close>: nothing is stored). \<open>errmsg_given\<close> says that \<open>errmsg\<close> is not \<open>NULL\<close>.
\<close>

definition check_child_status_buf ::
  "host \<Rightarrow> string \<Rightarrow> int \<Rightarrow> string option \<Rightarrow> string option \<Rightarrow> bool
     \<Rightarrow> gretl_error option \<times> string option" where
  "check_child_status_buf h prog st out err errmsg_given =
     (case g_spawn_check_exit_status h st of
        None \<Rightarrow> (None, None)
      | Some gerr \<Rightarrow>
          if errmsg_given then
            (let m0 = (case gerr of
                         Some message \<Rightarrow> prog @ '' failed: '' @ message
                       | None \<Rightarrow> prog @ '' failed'');
                 m1 = (if timeout_status st
                       then m0 @ '' (timed out; set GRETL_LLM_TIMEOUT_SEC)'' else m0);
                 m2 = (if captured err \<noteq> []
                       then m1 @ [newline, newline] @ ''stderr:'' @ [newline] @ captured err
                       else if captured out \<noteq> []
                       then m1 @ [newline, newline] @ ''stdout:'' @ [newline] @ captured out
                       else m1)
             in (Some E_EXTERNAL, Some m2))
          else (Some E_EXTERNAL, None))"


subsection \<open>Providers and executables\<close>

datatype GretlLLMProvider = GRETL_LLM_NONE | GRETL_LLM_CODEX | GRETL_LLM_GEMINI

definition g_ascii_tolower :: "char \<Rightarrow> char" where
  "g_ascii_tolower c =
     (if 65 \<le> (of_char c :: nat) \<and> (of_char c :: nat) \<le> 90
      then char_of ((of_char c :: nat) + 32) else c)"

text \<open>\<open>g_ascii_strcasecmp (a, b) == 0\<close>.\<close>

definition strcaseeq :: "string \<Rightarrow> string \<Rightarrow> bool" where
  "strcaseeq a b = (map g_ascii_tolower a = map g_ascii_tolower b)"

text \<open>
  \<open>gretl_llm_provider_from_string\<close> with \<open>p\<close> not \<open>NULL\<close>: the code returned, the value
  stored in \<open>*p\<close> and the global channel afterwards.
\<close>

definition gretl_llm_provider_from_string ::
  "string option \<Rightarrow> errchan \<Rightarrow> gretl_error option \<times> GretlLLMProvider \<times> errchan" where
  "gretl_llm_provider_from_string s0 ch =
     (case s0 of
        None \<Rightarrow> (None, GRETL_LLM_NONE, ch)
      | Some s \<Rightarrow>
          if s = [] then (None, GRETL_LLM_NONE, ch)
          else if strcaseeq s ''codex'' then (None, GRETL_LLM_CODEX, ch)
          else if strcaseeq s ''gemini'' then (None, GRETL_LLM_GEMINI, ch)
          else if strcaseeq s ''none'' then (None, GRETL_LLM_NONE, ch)
          else
            (Some E_DATA, GRETL_LLM_NONE,
             gretl_errmsg_set (''Unknown LLM provider '' @ [CHR 0x27] @ s @ [CHR 0x27]
               @ '' (expected codex|gemini)'') ch))"

definition gretl_llm_provider_name :: "GretlLLMProvider \<Rightarrow> string" where
  "gretl_llm_provider_name p =
     (if p = GRETL_LLM_CODEX then ''codex''
      else if p = GRETL_LLM_GEMINI then ''gemini''
      else ''none'')"

definition gretl_llm_default_provider :: "host \<Rightarrow> errchan \<Rightarrow> GretlLLMProvider \<times> errchan" where
  "gretl_llm_default_provider h ch =
     (case getenv h ''GRETL_LLM_PROVIDER'' of
        None \<Rightarrow> (GRETL_LLM_CODEX, ch)
      | Some s \<Rightarrow>
          if s = [] then (GRETL_LLM_CODEX, ch)
          else
            (case gretl_llm_provider_from_string (Some s) ch of
               (None, p, ch') \<Rightarrow> (p, ch')
             | (Some e, p, ch') \<Rightarrow> (GRETL_LLM_CODEX, ch')))"

definition find_executable :: "host \<Rightarrow> GretlLLMProvider \<Rightarrow> string option" where
  "find_executable h provider =
     (case provider of
        GRETL_LLM_NONE \<Rightarrow> None
      | _ \<Rightarrow>
          (let envvar = (if provider = GRETL_LLM_CODEX then ''GRETL_CODEX_BIN''
                         else ''GRETL_GEMINI_BIN'');
               fallback = (if provider = GRETL_LLM_CODEX then default_codex_bin
                           else default_gemini_bin)
           in if captured (getenv h envvar) \<noteq> [] then getenv h envvar
              else if file_is_executable h fallback then Some fallback
              else if provider = GRETL_LLM_CODEX then find_program_in_path h ''codex''
              else find_program_in_path h ''gemini''))"

text \<open>
  \<open>set_spawn_error\<close> writes the global channel; \<open>set_spawn_error_buf\<close> does so only when
  \<open>errmsg\<close> is \<open>NULL\<close>, and stores the message in \<open>*errmsg\<close> otherwise. Both return
  \<open>E_EXTERNAL\<close>. \<open>gerr\<close> is the message of the \<open>GError\<close>.
\<close>

definition spawn_error_text :: "string \<Rightarrow> string option \<Rightarrow> string" where
  "spawn_error_text pfx gerr =
     (case gerr of Some message \<Rightarrow> pfx @ '': '' @ message | None \<Rightarrow> pfx)"

definition set_spawn_error :: "string \<Rightarrow> string option \<Rightarrow> errchan \<Rightarrow> gretl_error option \<times> errchan" where
  "set_spawn_error pfx gerr ch = (Some E_EXTERNAL, gretl_errmsg_set (spawn_error_text pfx gerr) ch)"

definition set_spawn_error_buf ::
  "string \<Rightarrow> string option \<Rightarrow> bool \<Rightarrow> errchan \<Rightarrow> gretl_error option \<times> string option \<times> errchan" where
  "set_spawn_error_buf pfx gerr errmsg_given ch =
     (if \<not> errmsg_given then
        (case set_spawn_error pfx gerr ch of (e, ch') \<Rightarrow> (e, None, ch'))
      else (Some E_EXTERNAL, Some (spawn_error_text pfx gerr), ch))"

subsection \<open>Extracting the reply\<close>


definition read_reply_file_buf ::
  "host \<Rightarrow> string \<Rightarrow> bool \<Rightarrow> errchan
     \<Rightarrow> gretl_error option \<times> string option \<times> string option \<times> errchan" where
  "read_reply_file_buf h path errmsg_given ch =
     (case file_get_contents h path of
        Inl gerr \<Rightarrow>
          (case set_spawn_error_buf ''Failed to read LLM output file'' gerr errmsg_given ch of
             (e, m, ch') \<Rightarrow> (e, None, m, ch'))
      | Inr buf \<Rightarrow>
          if length buf > GRETL_LLM_MAX_REPLY
          then (Some E_TOOLONG, None,
                if errmsg_given then Some ''LLM reply too long'' else None, ch)
          else (None, Some (c_str buf), None, ch))"

definition codex_argv :: "host \<Rightarrow> string \<Rightarrow> string \<Rightarrow> string \<Rightarrow> string list" where
  "codex_argv h bin tmpname prompt =
     (let base_argv_safe =
            [bin, ''-a'', ''never'', ''exec'', ''-s'', ''read-only'', ''--color'', ''never'',
             ''--skip-git-repo-check'', ''--output-last-message'', tmpname, prompt];
          base_argv_danger =
            [bin, ''exec'', ''--dangerously-bypass-approvals-and-sandbox'', ''--color'',
             ''never'', ''--skip-git-repo-check'', ''--output-last-message'', tmpname, prompt]
      in argv_wrap_timeout h
           (if codex_dangerous_default h then base_argv_danger else base_argv_safe))"

definition gemini_argv :: "host \<Rightarrow> string \<Rightarrow> string \<Rightarrow> string list" where
  "gemini_argv h bin prompt =
     argv_wrap_timeout h
       [bin, ''-p'', prompt, ''--output-format'', ''json'',
        ''--allowed-mcp-server-names'', ''gretl-none'', ''--allowed-tools'', ''gretl-none'']"

text \<open>The message for a run that succeeded and left no reply.\<close>

definition no_reply_message :: "string \<Rightarrow> string option \<Rightarrow> string option \<Rightarrow> string" where
  "no_reply_message prog out err =
     (if captured err \<noteq> []
      then prog @ '' returned no reply (stderr follows)'' @ [newline] @ captured err
      else if captured out \<noteq> []
      then prog @ '' returned no reply (stdout follows)'' @ [newline] @ captured out
      else prog @ '' returned no reply'')"


text \<open>
  \<open>run_codex_cli_buf\<close>: the code, \<open>*reply\<close>, the message stored in \<open>*errmsg\<close> and the
  global channel.
\<close>

definition run_codex_cli_buf ::
  "host \<Rightarrow> string \<Rightarrow> string \<Rightarrow> bool \<Rightarrow> errchan
     \<Rightarrow> gretl_error option \<times> string option \<times> string option \<times> errchan" where
  "run_codex_cli_buf h bin prompt errmsg_given ch =
     (case file_open_tmp h ''gretl_codex_lastmsg_XXXXXX'' of
        Inl gerr \<Rightarrow>
          (case set_spawn_error_buf ''Failed to create temp file for codex output'' gerr
                  errmsg_given ch of
             (e, m, ch') \<Rightarrow> (e, None, m, ch'))
      | Inr tmpname \<Rightarrow>
          (case spawn_sync h (codex_argv h bin tmpname prompt) of
             Inl gerr \<Rightarrow>
               (case set_spawn_error_buf ''Failed to run codex CLI'' gerr errmsg_given ch of
                  (e, m, ch') \<Rightarrow> (e, None, m, ch'))
           | Inr res \<Rightarrow>
               (case check_child_status_buf h ''codex'' (status res) (stdout_buf res)
                       (stderr_buf res) errmsg_given of
                  (Some e, m) \<Rightarrow> (Some E_EXTERNAL, None, m, ch)
                | (None, m) \<Rightarrow>
                    (case read_reply_file_buf h tmpname errmsg_given ch of
                       (e, rep, m', ch') \<Rightarrow>
                         if e = None \<and> captured rep = [] then
                           (Some E_EXTERNAL, rep,
                            if errmsg_given
                            then Some (no_reply_message ''codex'' (stdout_buf res) (stderr_buf res))
                            else m',
                            ch')
                         else (e, rep, m', ch')))))"

text \<open>
  \<open>strip_to_json\<close> on a text that is not \<open>NULL\<close>: from the first \<open>{\<close> to the last \<open>}\<close>.
\<close>

definition strip_to_json :: "string \<Rightarrow> string option" where
  "strip_to_json s =
     (if CHR ''{'' \<notin> set s \<or> CHR ''}'' \<notin> set s then None
      else
        (let p0 = length (takeWhile (\<lambda>c. c \<noteq> CHR ''{'') s);
             p1 = length s - 1 - length (takeWhile (\<lambda>c. c \<noteq> CHR ''}'') (rev s))
         in if p1 \<le> p0 then None else Some (take (p1 - p0 + 1) (drop p0 s))))"

definition hexval :: "char \<Rightarrow> int" where
  "hexval c =
     (let n = int (of_char c) in
      if 48 \<le> n \<and> n \<le> 57 then n - 48
      else if 97 \<le> n \<and> n \<le> 102 then 10 + (n - 97)
      else if 65 \<le> n \<and> n \<le> 70 then 10 + (n - 65)
      else - 1)"

text \<open>
  GLib's \<open>g_unichar_to_utf8\<close> for a code point up to \<open>0x10FFFF\<close>: the UTF-8 bytes.
\<close>

definition g_unichar_to_utf8 :: "nat \<Rightarrow> string" where
  "g_unichar_to_utf8 u =
     (if u < 0x80 then [char_of u]
      else if u < 0x800 then [char_of (0xC0 + u div 64), char_of (0x80 + u mod 64)]
      else if u < 0x10000 then
        [char_of (0xE0 + u div 4096), char_of (0x80 + (u div 64) mod 64),
         char_of (0x80 + u mod 64)]
      else
        [char_of (0xF0 + u div 262144), char_of (0x80 + (u div 4096) mod 64),
         char_of (0x80 + (u div 64) mod 64), char_of (0x80 + u mod 64)])"

definition append_utf8_from_codepoint :: "string \<Rightarrow> nat \<Rightarrow> string" where
  "append_utf8_from_codepoint gs u = (if u > 0x10FFFF then gs else gs @ g_unichar_to_utf8 u)"

text \<open>
  The loop of \<open>json_unescape_string\<close> over the \<open>len\<close> bytes at \<open>s\<close>: \<open>gs\<close> is the buffer,
  the list the text from \<open>p\<close> to \<open>pe\<close>.
\<close>

function json_unescape_loop :: "string \<Rightarrow> string \<Rightarrow> string" where
  "json_unescape_loop gs [] = gs"
| "json_unescape_loop gs (c # p) =
     (if c \<noteq> bslash then json_unescape_loop (gs @ [c]) p
      else
        (case p of
           [] \<Rightarrow> gs
         | e # p' \<Rightarrow>
             if e = dquote \<or> e = bslash \<or> e = CHR ''/'' then json_unescape_loop (gs @ [e]) p'
             else if e = CHR ''b'' then json_unescape_loop (gs @ [CHR 0x08]) p'
             else if e = CHR ''f'' then json_unescape_loop (gs @ [CHR 0x0C]) p'
             else if e = CHR ''n'' then json_unescape_loop (gs @ [CHR 0x0A]) p'
             else if e = CHR ''r'' then json_unescape_loop (gs @ [CHR 0x0D]) p'
             else if e = CHR ''t'' then json_unescape_loop (gs @ [CHR 0x09]) p'
             else if e = CHR ''u'' then
               (if length p < 5 then gs
                else
                  (let h0 = hexval (p ! 1); h1 = hexval (p ! 2);
                       h2 = hexval (p ! 3); h3 = hexval (p ! 4)
                   in if h0 < 0 \<or> h1 < 0 \<or> h2 < 0 \<or> h3 < 0
                      then json_unescape_loop gs (drop 5 p)
                      else json_unescape_loop
                             (append_utf8_from_codepoint gs
                                (nat (h0 * 4096 + h1 * 256 + h2 * 16 + h3)))
                             (drop 5 p)))
             else json_unescape_loop (gs @ [e]) p'))"
  by pat_completeness auto
termination
  by (relation "measure (\<lambda>(gs, p). length p)") auto

definition json_unescape_string :: "string \<Rightarrow> nat \<Rightarrow> string" where
  "json_unescape_string s len = c_str (json_unescape_loop [] (take len s))"

text \<open>
  The search for the closing quote in the library's \<open>json_extract_string_field\<close>: the
  first quote at \<open>q\<close> with \<open>q == p\<close> or \<open>q[-1]\<close> no backslash. \<open>prev\<close> says that the
  character before \<open>q\<close> is part of the value and is a backslash; \<open>i\<close> is \<open>q - p\<close>.
\<close>

fun closing_quote :: "bool \<Rightarrow> nat \<Rightarrow> string \<Rightarrow> nat option" where
  "closing_quote prev i [] = None"
| "closing_quote prev i (c # q) =
     (if c = dquote \<and> \<not> prev then Some i else closing_quote (c = bslash) (Suc i) q)"

text \<open>
  \<open>json_extract_string_field\<close> of \<open>gretl_llm.c\<close> (the reader of \<open>ai_assistant.c\<close> has a
  function of the same name), on arguments that are not \<open>NULL\<close>.
\<close>

definition json_extract_string_field_lib :: "string \<Rightarrow> string \<Rightarrow> string option" where
  "json_extract_string_field_lib json field =
     (if field = [] then None
      else
        (case strstr json ([dquote] @ field @ [dquote]) of
           None \<Rightarrow> None
         | Some p0 \<Rightarrow>
             (case dropWhile (\<lambda>c. c \<noteq> CHR '':'') (drop (2 + length field) p0) of
                [] \<Rightarrow> None
              | colon # p1 \<Rightarrow>
                  (case dropWhile (\<lambda>c. c = CHR '' '' \<or> c = CHR 0x09 \<or> c = CHR 0x0A \<or> c = CHR 0x0D) p1 of
                     [] \<Rightarrow> None
                   | c # p \<Rightarrow>
                       if c \<noteq> dquote then None
                       else
                         (case closing_quote False 0 p of
                            None \<Rightarrow> None
                          | Some nlen \<Rightarrow>
                              if nlen = 0 then Some []
                              else Some (json_unescape_string p nlen))))))"

definition run_gemini_cli_buf ::
  "host \<Rightarrow> string \<Rightarrow> string \<Rightarrow> bool \<Rightarrow> errchan
     \<Rightarrow> gretl_error option \<times> string option \<times> string option \<times> errchan" where
  "run_gemini_cli_buf h bin prompt errmsg_given ch =
     (case spawn_sync h (gemini_argv h bin prompt) of
        Inl gerr \<Rightarrow>
          (case set_spawn_error_buf ''Failed to run gemini CLI'' gerr errmsg_given ch of
             (e, m, ch') \<Rightarrow> (e, None, m, ch'))
      | Inr res \<Rightarrow>
          (case check_child_status_buf h ''gemini'' (status res) (stdout_buf res)
                  (stderr_buf res) errmsg_given of
             (Some e, m) \<Rightarrow> (Some E_EXTERNAL, None, m, ch)
           | (None, m) \<Rightarrow>
               if strstr (captured (stderr_buf res)) ''An unexpected critical error occurred''
                    \<noteq> None
               then (Some E_EXTERNAL, None,
                     if errmsg_given
                     then Some (''gemini CLI error:'' @ [newline] @ captured (stderr_buf res))
                     else None, ch)
               else
                 (let json = (case stdout_buf res of None \<Rightarrow> None | Some out \<Rightarrow> strip_to_json out);
                      resp = (case json of
                                None \<Rightarrow> None
                              | Some j \<Rightarrow> json_extract_string_field_lib j ''response'')
                  in case resp of
                       None \<Rightarrow>
                         (Some E_EXTERNAL, None,
                          if errmsg_given then
                            Some
                              (if captured (stdout_buf res) \<noteq> [] then
                                 ''Failed to parse gemini response (output follows)'' @ [newline]
                                   @ captured (stdout_buf res)
                               else if captured (stderr_buf res) \<noteq> [] then
                                 ''gemini returned no JSON (stderr follows)'' @ [newline]
                                   @ captured (stderr_buf res)
                               else ''gemini returned no reply'')
                          else None, ch)
                     | Some rsp \<Rightarrow>
                         if length rsp > GRETL_LLM_MAX_REPLY
                         then (Some E_TOOLONG, None,
                               if errmsg_given then Some ''LLM reply too long'' else None, ch)
                         else (None, Some rsp, None, ch))))"

subsection \<open>The entry point\<close>

text \<open>
  \<open>gretl_llm_complete_with_error\<close>: \<open>reply_given\<close> and \<open>errmsg_given\<close> say that the
  pointers \<open>reply\<close> and \<open>errmsg\<close> are not \<open>NULL\<close>; \<open>prompt\<close> may be \<open>NULL\<close>. The result is
  the code, the text stored in \<open>*reply\<close>, the message stored in \<open>*errmsg\<close>, and the
  global channel afterwards.
\<close>

definition gretl_llm_complete_with_error ::
  "host \<Rightarrow> GretlLLMProvider \<Rightarrow> string option \<Rightarrow> bool \<Rightarrow> bool \<Rightarrow> errchan
     \<Rightarrow> gretl_error option \<times> string option \<times> string option \<times> errchan" where
  "gretl_llm_complete_with_error h provider0 prompt reply_given errmsg_given ch =
     (if \<not> reply_given then (Some E_DATA, None, None, ch)
      else if captured prompt = [] then
        (Some E_DATA, None, if errmsg_given then Some ''Missing prompt'' else None, ch)
      else
        (case (if provider0 = GRETL_LLM_NONE then gretl_llm_default_provider h ch
               else (provider0, ch)) of
           (provider, ch1) \<Rightarrow>
             (let bin = find_executable h provider in
              if captured bin = [] then
                (Some E_EXTERNAL, None,
                 if errmsg_given then
                   Some (''Cannot find '' @ gretl_llm_provider_name provider
                           @ '' executable (set GRETL_''
                           @ (if provider = GRETL_LLM_CODEX then ''CODEX'' else ''GEMINI'')
                           @ ''_BIN)'')
                 else None, ch1)
              else if provider = GRETL_LLM_CODEX then
                run_codex_cli_buf h (captured bin) (captured prompt) errmsg_given ch1
              else if provider = GRETL_LLM_GEMINI then
                run_gemini_cli_buf h (captured bin) (captured prompt) errmsg_given ch1
              else
                (Some E_DATA, None,
                 if errmsg_given then Some ''No LLM provider selected'' else None, ch1))))"

section \<open>The agent loop (\<open>gui/ai_assistant.c\<close>)\<close>

text \<open>
  \<open>job_thread\<close> calls the provider through \<open>gretl_llm_complete_with_error\<close>. The loop is
  modelled over any such call: a function of the provider, the prompt and the state
  \<open>'w\<close> of the world outside, which returns the code, \<open>*reply\<close> and \<open>*errmsg\<close>, and the
  new state of the world.
\<close>

type_synonym 'w llm_call =
  "GretlLLMProvider \<Rightarrow> string \<Rightarrow> 'w \<Rightarrow> (gretl_error option \<times> string option \<times> string option) \<times> 'w"

record AiJob =
  provider :: GretlLLMProvider
  prompt :: string
  tools_enabled :: bool
  snapshot :: AiSnapshot

text \<open>
  What the thread does that can be seen from outside: a provider invocation, with its
  prompt, and a run of the tool executor, with its transcript.
\<close>

datatype event = Invoke string | ExecTools "string option"

text \<open>
  The variables of \<open>job_thread\<close>: \<open>reply\<close>, \<open>insert_text\<close> and \<open>tool_log\<close> (\<open>NULL\<close> when
  tools are disabled), with the state of the world and the events so far.
\<close>

record 'w job_state =
  reply :: "string option"
  insert_text :: "string option"
  tool_log :: "string option"
  world :: 'w
  events :: "event list"

definition round_prompt :: "AiJob \<Rightarrow> string option \<Rightarrow> string" where
  "round_prompt job tlog =
     (if tools_enabled job \<and> captured tlog \<noteq> [] then
        prompt job @ [newline, newline] @ ''Tool results:'' @ [newline] @ captured tlog
          @ [newline, newline] @ ''Now respond using the JSON schema.'' @ [newline]
      else prompt job)"

text \<open>
  The \<open>for\<close> loop of \<open>job_thread\<close> from the iteration \<open>iter\<close> on; a \<open>break\<close> is a
  branch that returns the state, \<open>continue\<close> is the recursive call.
\<close>

function job_loop :: "'w llm_call \<Rightarrow> AiJob \<Rightarrow> nat \<Rightarrow> 'w job_state \<Rightarrow> 'w job_state" where
  "job_loop llm job iter st =
     (if iter < (if tools_enabled job then 2 else 1) then
        (let full_prompt = round_prompt job (tool_log st) in
         case llm (provider job) full_prompt (world st) of
           ((err, rep, errmsg), w) \<Rightarrow>
             (let st1 = st\<lparr>world := w, events := events st @ [Invoke full_prompt]\<rparr> in
              if err \<noteq> None \<or> rep = None then
                st1\<lparr>reply := Some (case errmsg of Some m \<Rightarrow> m | None \<Rightarrow> ''LLM call failed'')\<rparr>
              else if \<not> tools_enabled job then st1\<lparr>reply := rep\<rparr>
              else
                (let r = parse_llm_json_reply (captured rep) in
                 if tool_calls r \<noteq> [] \<and> iter = 0 then
                   (let tool_results = execute_tool_calls r (snapshot job) in
                    job_loop llm job (iter + 1)
                      (st1\<lparr>reply := rep,
                           tool_log :=
                             (case tool_log st of
                                None \<Rightarrow> None
                              | Some tlog \<Rightarrow> Some (tlog @ captured tool_results)),
                           events := events st1 @ [ExecTools tool_results]\<rparr>))
                 else
                   st1\<lparr>insert_text :=
                          (if captured (proposed_insert r) \<noteq> [] then proposed_insert r
                           else insert_text st),
                        reply := Some (format_llm_reply_for_display r (captured rep))\<rparr>)))
      else st)"
  by pat_completeness auto
termination
  by (relation "measure (\<lambda>(llm, job, iter, st). 2 - iter)") (auto split: if_splits)

declare job_loop.simps [simp del]

definition job_thread :: "'w llm_call \<Rightarrow> AiJob \<Rightarrow> 'w \<Rightarrow> 'w job_state" where
  "job_thread llm job w =
     job_loop llm job 0
       \<lparr>reply = None, insert_text = None,
        tool_log = (if tools_enabled job then Some [] else None),
        world = w, events = []\<rparr>"

text \<open>
  The call as the GUI makes it: \<open>reply\<close> and \<open>errmsg\<close> not \<open>NULL\<close>, on a host \<open>h\<close>, the
  world being gretl's global error channel.
\<close>

definition host_llm :: "host \<Rightarrow> errchan llm_call" where
  "host_llm h prov full_prompt ch =
     (case gretl_llm_complete_with_error h prov (Some full_prompt) True True ch of
        (err, rep, errmsg, ch') \<Rightarrow> ((err, rep, errmsg), ch'))"

section \<open>Notions the properties are stated with\<close>

text \<open>The number of provider invocations among the events.\<close>

fun invocations :: "event list \<Rightarrow> nat" where
  "invocations [] = 0"
| "invocations (Invoke p # es) = Suc (invocations es)"
| "invocations (ExecTools t # es) = invocations es"

text \<open>
  A text of newline-terminated lines, as the claims about the command log speak of it.
\<close>

definition terminated_lines :: "string list \<Rightarrow> string" where
  "terminated_lines ls = concat (map (\<lambda>l. l @ [newline]) ls)"

text \<open>
  The pieces a JSON string literal is written with: a plain character, a backslash
  escape of one character, and \<open>\uXXXX\<close>; the text of a piece; when a piece is well
  formed (a plain character is neither a quote nor a backslash, the four characters of
  \<open>\uXXXX\<close> are hex digits); and the character the reader's contract gives it: the
  control character for \<open>\b \f \n \r \t\<close>, the character itself for \<open>\" \\ \/\<close> and
  any other escaped character, the byte \<open>XX\<close> for \<open>\u00XX\<close> and \<open>?\<close> for any other
  \<open>\uXXXX\<close>.
\<close>

datatype json_unit = Plain char | Escape char | UEscape char char char char

fun unit_text :: "json_unit \<Rightarrow> string" where
  "unit_text (Plain c) = [c]"
| "unit_text (Escape c) = [bslash, c]"
| "unit_text (UEscape a b c d) = [bslash, CHR ''u'', a, b, c, d]"

fun unit_valid :: "json_unit \<Rightarrow> bool" where
  "unit_valid (Plain c) = (c \<noteq> dquote \<and> c \<noteq> bslash)"
| "unit_valid (Escape c) = (c \<noteq> CHR ''u'')"
| "unit_valid (UEscape a b c d) =
     (g_ascii_isxdigit a \<and> g_ascii_isxdigit b \<and> g_ascii_isxdigit c \<and> g_ascii_isxdigit d)"

fun unit_char :: "json_unit \<Rightarrow> char" where
  "unit_char (Plain c) = c"
| "unit_char (Escape c) =
     (if c = CHR ''b'' then CHR 0x08
      else if c = CHR ''f'' then CHR 0x0C
      else if c = CHR ''n'' then CHR 0x0A
      else if c = CHR ''r'' then CHR 0x0D
      else if c = CHR ''t'' then CHR 0x09
      else c)"
| "unit_char (UEscape a b c d) =
     (if a = CHR ''0'' \<and> b = CHR ''0''
      then char_of (16 * g_ascii_xdigit_value c + g_ascii_xdigit_value d)
      else CHR ''?'')"

definition literal_text :: "json_unit list \<Rightarrow> string" where
  "literal_text us = concat (map unit_text us)"

text \<open>
  String literals and nesting depth, as the claims about \<open>match_closing\<close> speak of them.
  \<open>skip_literal\<close> is the text after the closing quote of a literal whose opening quote
  has been read: a backslash takes the character after it along, and the first quote
  that is not taken along closes the literal; the result is empty when no quote
  closes it. \<open>net_depth\<close> is the number of opening delimiters less the number of
  closing delimiters of a text, those inside string literals left out.
\<close>

fun skip_literal :: "string \<Rightarrow> string" where
  "skip_literal [] = []"
| "skip_literal [c] = []"
| "skip_literal (c # x # cs) =
     (if c = bslash then skip_literal cs
      else if c = dquote then x # cs
      else skip_literal (x # cs))"

lemma skip_literal_length: "length (skip_literal cs) \<le> length cs"
  by (induction cs rule: skip_literal.induct) auto

function net_depth :: "char \<Rightarrow> char \<Rightarrow> string \<Rightarrow> int" where
  "net_depth opn cls [] = 0"
| "net_depth opn cls (c # cs) =
     (if c = dquote then net_depth opn cls (skip_literal cs)
      else (if c = opn then 1 else if c = cls then - 1 else 0) + net_depth opn cls cs)"
  by pat_completeness auto
termination
  by (relation "measure (\<lambda>(opn, cls, s). length s)")
    (auto simp: skip_literal_length less_Suc_eq_le)

declare net_depth.simps [simp del]

text \<open>
  Entered at depth \<open>d\<close>, the text \<open>p\<close> closes at \<open>k\<close>: a closing delimiter stands at \<open>k\<close>,
  where the depth is zero for the first time; or it never closes.
\<close>

definition closes_at :: "char \<Rightarrow> char \<Rightarrow> int \<Rightarrow> string \<Rightarrow> nat \<Rightarrow> bool" where
  "closes_at opn cls d p k =
     (k < length p \<and> p ! k = cls \<and> d + net_depth opn cls (take (Suc k) p) = 0 \<and>
      (\<forall>j \<le> k. 0 < d + net_depth opn cls (take j p)))"

definition never_closes :: "char \<Rightarrow> char \<Rightarrow> int \<Rightarrow> string \<Rightarrow> bool" where
  "never_closes opn cls d p = (\<forall>j \<le> length p. 0 < d + net_depth opn cls (take j p))"

text \<open>The number of characters of a literal, counted from after its opening quote.\<close>

definition literal_length :: "string \<Rightarrow> nat" where
  "literal_length cs = length cs - length (skip_literal cs)"



section \<open>Example inputs\<close>

text \<open>A host for the examples: every program is missing, the temporary file can be made,
  and the child ends with the given streams and wait status.\<close>

definition example_host :: "string option \<Rightarrow> string option \<Rightarrow> int \<Rightarrow> host" where
  "example_host out err st =
     \<lparr>getenv = (\<lambda>v. None),
      file_is_executable = (\<lambda>path. False),
      find_program_in_path = (\<lambda>prog. None),
      file_open_tmp = (\<lambda>tmpl. Inr ''/tmp/gretl_codex_lastmsg_A1B2C3''),
      spawn_sync = (\<lambda>argv. Inr \<lparr>stdout_buf = out, stderr_buf = err, status = st\<rparr>),
      exit_status_message = (\<lambda>s. Some ''Child process exited abnormally''),
      file_get_contents = (\<lambda>path. Inl None)\<rparr>"

text \<open>
  A provider that asks for a tool in every reply, the world being the number of calls
  made; a snapshot; and a job with tools enabled.
\<close>

definition tool_request :: string where
  \<open>tool_request = ''{"tool_calls":[{"name":"get_last_error"}]}''\<close>

definition asking_llm :: "nat llm_call" where
  "asking_llm prov full_prompt n = ((None, Some tool_request, None), Suc n)"

definition example_snapshot :: AiSnapshot where
  "example_snapshot =
     \<lparr>dataset = Some (''[Dataset]'' @ [newline] @ ''(no dataset loaded)'' @ [newline]),
      last_error = Some (''[Last error]'' @ [newline] @ ''(none)'' @ [newline]),
      script_selection = Some (''(no selection)'' @ [newline]),
      script_full = Some (''ols y 0 x'' @ [newline]),
      command_log = Some (''open data.gdt'' @ [newline] @ ''ols y 0 x'' @ [newline]
                          @ ''modtest'' @ [newline]),
      last_model_simple = Some (''(none)'' @ [newline]),
      last_model_full = None\<rparr>"

definition example_job :: "bool \<Rightarrow> AiJob" where
  "example_job tools =
     \<lparr>provider = GRETL_LLM_CODEX, prompt = ''why?'', tools_enabled = tools,
      snapshot = example_snapshot\<rparr>"

text \<open>A snapshot whose dataset summary alone fills the transcript, and a call for it.\<close>

definition big_snapshot :: AiSnapshot where
  "big_snapshot = example_snapshot\<lparr>dataset := Some (replicate 40000 CHR ''x'')\<rparr>"

definition dataset_call :: AiLLMReply where
  "dataset_call =
     \<lparr>assistant_text = None, proposed_insert = None,
      tool_calls = [\<lparr>name = ''get_dataset_summary'', n_lines = 50, style = None\<rparr>]\<rparr>"

text \<open>A command log of ten lines, the reply of the specification that asks for its last
  three, and a log of two long lines.\<close>

definition ten_lines :: "string list" where
  "ten_lines = [''open a.gdt'', ''summary'', ''ols y 0 x'', ''modtest'', ''genr z = x^2'',
                ''ols y 0 x z'', ''omit z'', ''corr'', ''smpl 1 50'', ''ols y 0 x'']"

definition log_tail_request :: string where
  \<open>log_tail_request =
     ''{"tool_calls":[{"name":"get_command_log_tail","args":{"n_lines":3}}]}''\<close>

definition two_long_lines :: "string list" where
  "two_long_lines = [replicate 20000 CHR ''a'', replicate 20000 CHR ''b'']"

text \<open>A host whose \<open>GRETL_LLM_PROVIDER\<close> names no provider gretl knows.\<close>

definition misconfigured_host :: host where
  "misconfigured_host =
     (example_host None None 0)\<lparr>getenv := [''GRETL_LLM_PROVIDER'' \<mapsto> ''claude'']\<rparr>"

text \<open>The nested object of the specification, and the same without its last brace.\<close>

definition nested_example :: string where
  \<open>nested_example = ''{"a":"x}y","b":{}}''\<close>

definition unclosed_example :: string where
  \<open>unclosed_example = ''{"a":"x}y","b":{}''\<close>




section \<open>Properties\<close>

subsection \<open>The timeout setting\<close>

lemma int_of_long_small: "0 \<le> v \<Longrightarrow> v < 2 ^ 31 \<Longrightarrow> int_of_long v = v"
  unfolding int_of_long_def
  by (simp add: signed_of_int signed_take_bit_int_eq_self)

lemma strtol10_Nil: "strtol10 [] = None"
  by (simp add: strtol10_def)

text \<open>
  Claim C8. Whatever the environment holds, the effective timeout is an integer in
  (0, 3600]: it is the value \<open>strtol\<close> reads from \<open>GRETL_LLM_TIMEOUT_SEC\<close> when the
  variable is set, some digits were converted and the value lies in (0, 3600]; and it is
  the default 300 when the variable is unset, empty, has no digits to convert, or holds
  a value outside that range.
\<close>

theorem llm_timeout_seconds_spec:
  "0 < llm_timeout_seconds env \<and> llm_timeout_seconds env \<le> 3600 \<and>
   llm_timeout_seconds env =
     (case env ''GRETL_LLM_TIMEOUT_SEC'' of
        None \<Rightarrow> 300
      | Some s \<Rightarrow>
          (case strtol10 s of
             None \<Rightarrow> 300
           | Some (v, endp) \<Rightarrow> if 0 < v \<and> v \<le> 3600 then v else 300))"
proof (cases "env ''GRETL_LLM_TIMEOUT_SEC''")
  case None
  then show ?thesis
    by (simp add: llm_timeout_seconds_def GRETL_LLM_DEFAULT_TIMEOUT_SEC_def)
next
  case (Some s)
  show ?thesis
  proof (cases "strtol10 s")
    case None
    with Some show ?thesis
      by (simp add: llm_timeout_seconds_def GRETL_LLM_DEFAULT_TIMEOUT_SEC_def)
  next
    case (Some p)
    obtain v endp where p: "p = (v, endp)" by (cases p)
    have ne: "s \<noteq> []" using Some strtol10_Nil by auto
    show ?thesis
    proof (cases "0 < v \<and> v \<le> 3600")
      case True
      then have "int_of_long v = v" by (intro int_of_long_small) auto
      with True Some p ne \<open>env ''GRETL_LLM_TIMEOUT_SEC'' = Some s\<close> show ?thesis
        by (simp add: llm_timeout_seconds_def)
    next
      case False
      with Some p ne \<open>env ''GRETL_LLM_TIMEOUT_SEC'' = Some s\<close> show ?thesis
        by (auto simp add: llm_timeout_seconds_def GRETL_LLM_DEFAULT_TIMEOUT_SEC_def)
    qed
  qed
qed

theorem llm_timeout_seconds_spec_witness:
  "llm_timeout_seconds [''GRETL_LLM_TIMEOUT_SEC'' \<mapsto> '' 120s''] = 120 \<and>
   llm_timeout_seconds [''GRETL_LLM_TIMEOUT_SEC'' \<mapsto> ''3601''] = 300 \<and>
   llm_timeout_seconds [''GRETL_LLM_TIMEOUT_SEC'' \<mapsto> ''-5''] = 300 \<and>
   llm_timeout_seconds [''GRETL_LLM_TIMEOUT_SEC'' \<mapsto> ''soon''] = 300 \<and>
   llm_timeout_seconds Map.empty = 300"
  using llm_timeout_seconds_spec [of "[''GRETL_LLM_TIMEOUT_SEC'' \<mapsto> '' 120s'']"]
    llm_timeout_seconds_spec [of "[''GRETL_LLM_TIMEOUT_SEC'' \<mapsto> ''3601'']"]
    llm_timeout_seconds_spec [of "[''GRETL_LLM_TIMEOUT_SEC'' \<mapsto> ''-5'']"]
    llm_timeout_seconds_spec [of "[''GRETL_LLM_TIMEOUT_SEC'' \<mapsto> ''soon'']"]
    llm_timeout_seconds_spec [of Map.empty]
  by (simp add: strtol10_def strtol_unsigned_def isspace_def isdigit_def digit_value_def
      LONG_MAX_def LONG_MIN_def)

subsection \<open>Classifying the exit of the child\<close>




subsection \<open>The agent loop\<close>

lemma job_loop_step:
  "iter < (if tools_enabled job then 2 else 1) \<Longrightarrow>
   llm (provider job) (round_prompt job (tool_log st)) (world st) = ((err, rep, em), w) \<Longrightarrow>
   job_loop llm job iter st =
     (let full_prompt = round_prompt job (tool_log st);
          st1 = st\<lparr>world := w, events := events st @ [Invoke full_prompt]\<rparr> in
      if err \<noteq> None \<or> rep = None then
        st1\<lparr>reply := Some (case em of Some m \<Rightarrow> m | None \<Rightarrow> ''LLM call failed'')\<rparr>
      else if \<not> tools_enabled job then st1\<lparr>reply := rep\<rparr>
      else
        (let r = parse_llm_json_reply (captured rep) in
         if tool_calls r \<noteq> [] \<and> iter = 0 then
           (let tool_results = execute_tool_calls r (snapshot job) in
            job_loop llm job (iter + 1)
              (st1\<lparr>reply := rep,
                   tool_log :=
                     (case tool_log st of
                        None \<Rightarrow> None
                      | Some tlog \<Rightarrow> Some (tlog @ captured tool_results)),
                   events := events st1 @ [ExecTools tool_results]\<rparr>))
         else
           st1\<lparr>insert_text :=
                  (if captured (proposed_insert r) \<noteq> [] then proposed_insert r
                   else insert_text st),
                reply := Some (format_llm_reply_for_display r (captured rep))\<rparr>))"
  by (subst job_loop.simps) (simp add: Let_def)

text \<open>The thread stops after one round unless tools are enabled and round 1 asks for one.\<close>

lemma job_thread_one_round:
  assumes "llm (provider job) (prompt job) w = ((e1, r1, m1), w1)"
    and "e1 \<noteq> None \<or> r1 = None \<or> \<not> tools_enabled job
         \<or> tool_calls (parse_llm_json_reply (captured r1)) = []"
  shows "events (job_thread llm job w) = [Invoke (prompt job)]"
  using assms
  by (auto simp: job_thread_def job_loop_step round_prompt_def captured_def Let_def)

text \<open>The state the thread ends in when round 1 asks for tools.\<close>

lemma job_thread_two_rounds:
  assumes r1: "llm (provider job) (prompt job) w = ((None, Some t1, m1), w1)"
    and en: "tools_enabled job"
    and tc: "tool_calls (parse_llm_json_reply t1) \<noteq> []"
    and r2: "llm (provider job)
               (round_prompt job
                  (Some (captured (execute_tool_calls (parse_llm_json_reply t1) (snapshot job)))))
               w1 = ((e2, r2', m2), w2)"
  shows "job_thread llm job w =
           \<lparr>reply =
              (if e2 \<noteq> None \<or> r2' = None
               then Some (case m2 of Some m \<Rightarrow> m | None \<Rightarrow> ''LLM call failed'')
               else Some (format_llm_reply_for_display
                            (parse_llm_json_reply (captured r2')) (captured r2'))),
            insert_text =
              (if e2 \<noteq> None \<or> r2' = None then None
               else if captured (proposed_insert (parse_llm_json_reply (captured r2'))) \<noteq> []
               then proposed_insert (parse_llm_json_reply (captured r2')) else None),
            tool_log =
              Some (captured (execute_tool_calls (parse_llm_json_reply t1) (snapshot job))),
            world = w2,
            events =
              [Invoke (prompt job),
               ExecTools (execute_tool_calls (parse_llm_json_reply t1) (snapshot job)),
               Invoke (round_prompt job
                  (Some (captured
                     (execute_tool_calls (parse_llm_json_reply t1) (snapshot job)))))]\<rparr>"
proof -
  let ?st0 = "\<lparr>reply = None, insert_text = None, tool_log = Some [], world = w, events = []\<rparr>"
  let ?tr = "execute_tool_calls (parse_llm_json_reply t1) (snapshot job)"
  let ?st2 = "\<lparr>reply = Some t1, insert_text = None, tool_log = Some (captured ?tr), world = w1,
               events = [Invoke (prompt job), ExecTools ?tr]\<rparr>"
  let ?p2 = "round_prompt job (Some (captured ?tr))"
  have p1: "round_prompt job (Some []) = prompt job"
    by (simp add: round_prompt_def captured_def)
  have s1: "job_loop llm job 0 ?st0 = job_loop llm job 1 ?st2"
    using r1 en tc
    by (subst job_loop_step [where err = None and rep = "Some t1" and em = m1 and w = w1])
      (simp_all add: p1 captured_def Let_def)
  have s2: "job_loop llm job 1 ?st2 =
      (if e2 \<noteq> None \<or> r2' = None then
         ?st2\<lparr>world := w2, events := events ?st2 @ [Invoke ?p2],
               reply := Some (case m2 of Some m \<Rightarrow> m | None \<Rightarrow> ''LLM call failed'')\<rparr>
       else
         ?st2\<lparr>world := w2, events := events ?st2 @ [Invoke ?p2],
               insert_text :=
                 (if captured (proposed_insert (parse_llm_json_reply (captured r2'))) \<noteq> []
                  then proposed_insert (parse_llm_json_reply (captured r2')) else None),
               reply := Some (format_llm_reply_for_display
                                (parse_llm_json_reply (captured r2')) (captured r2'))\<rparr>)"
    using r2 en
    by (subst job_loop_step [where err = e2 and rep = r2' and em = m2 and w = w2])
      (simp_all add: Let_def)
  show ?thesis
    unfolding job_thread_def using en s1 s2 by simp
qed

text \<open>
  Claim C1. For every job, every provider and every state of the world, the agent loop
  invokes the provider at most twice, and exactly once when tool use is disabled. The
  events of a job are one invocation with the job's prompt, or that invocation, one run
  of the tool executor and a second invocation: the executor never runs after the
  second invocation and there is no third. When round 1 succeeds with tool calls and
  round 2 succeeds with the text \<open>t2\<close>, the final reply is \<open>t2\<close> decoded and formatted
  for display, whether or not \<open>t2\<close> asks for tools again.
\<close>

theorem agent_loop_rounds:
  "invocations (events (job_thread llm job w)) \<le> 2 \<and>
   (\<not> tools_enabled job \<longrightarrow> invocations (events (job_thread llm job w)) = 1) \<and>
   (events (job_thread llm job w) = [Invoke (prompt job)] \<or>
    (\<exists>tr p2. events (job_thread llm job w) = [Invoke (prompt job), ExecTools tr, Invoke p2])) \<and>
   (tools_enabled job \<and>
    llm (provider job) (prompt job) w = ((None, Some t1, m1), w1) \<and>
    tool_calls (parse_llm_json_reply t1) \<noteq> [] \<and>
    llm (provider job)
      (round_prompt job
         (Some (captured (execute_tool_calls (parse_llm_json_reply t1) (snapshot job)))))
      w1 = ((None, Some t2, m2), w2) \<longrightarrow>
      reply (job_thread llm job w) =
        Some (format_llm_reply_for_display (parse_llm_json_reply t2) t2) \<and>
      world (job_thread llm job w) = w2 \<and>
      events (job_thread llm job w) =
        [Invoke (prompt job),
         ExecTools (execute_tool_calls (parse_llm_json_reply t1) (snapshot job)),
         Invoke (round_prompt job
            (Some (captured (execute_tool_calls (parse_llm_json_reply t1) (snapshot job)))))])"
proof -
  obtain e1 r1 m1' w1' where first: "llm (provider job) (prompt job) w = ((e1, r1, m1'), w1')"
    by (metis prod.exhaust)
  have shape:
    "events (job_thread llm job w) = [Invoke (prompt job)] \<or>
     (tools_enabled job \<and>
      (\<exists>tr p2. events (job_thread llm job w) = [Invoke (prompt job), ExecTools tr, Invoke p2]))"
  proof (cases "e1 \<noteq> None \<or> r1 = None \<or> \<not> tools_enabled job
                \<or> tool_calls (parse_llm_json_reply (captured r1)) = []")
    case True
    with first show ?thesis by (simp add: job_thread_one_round)
  next
    case False
    then obtain t where t: "e1 = None" "r1 = Some t" "tools_enabled job"
      "tool_calls (parse_llm_json_reply t) \<noteq> []"
      by (auto simp: captured_def)
    obtain e2 r2' m2' w2' where second:
      "llm (provider job)
         (round_prompt job
            (Some (captured (execute_tool_calls (parse_llm_json_reply t) (snapshot job)))))
         w1' = ((e2, r2', m2'), w2')"
      by (metis prod.exhaust)
    from first t second show ?thesis
      by (simp add: job_thread_two_rounds)
  qed
  have final:
    "reply (job_thread llm job w) =
        Some (format_llm_reply_for_display (parse_llm_json_reply t2) t2) \<and>
     world (job_thread llm job w) = w2 \<and>
     events (job_thread llm job w) =
        [Invoke (prompt job),
         ExecTools (execute_tool_calls (parse_llm_json_reply t1) (snapshot job)),
         Invoke (round_prompt job
            (Some (captured (execute_tool_calls (parse_llm_json_reply t1) (snapshot job)))))]"
    if "tools_enabled job"
      and "llm (provider job) (prompt job) w = ((None, Some t1, m1), w1)"
      and "tool_calls (parse_llm_json_reply t1) \<noteq> []"
      and "llm (provider job)
             (round_prompt job
                (Some (captured (execute_tool_calls (parse_llm_json_reply t1) (snapshot job)))))
             w1 = ((None, Some t2, m2), w2)"
    using that by (simp add: job_thread_two_rounds captured_def)
  from shape final show ?thesis
    by auto
qed

lemma parse_tool_request:
  "parse_llm_json_reply tool_request =
     \<lparr>assistant_text = None, proposed_insert = None,
      tool_calls = [\<lparr>name = ''get_last_error'', n_lines = 50, style = None\<rparr>]\<rparr>"
  unfolding tool_request_def by code_simp

theorem agent_loop_rounds_witness:
  "invocations (events (job_thread asking_llm (example_job True) 0)) = 2 \<and>
   world (job_thread asking_llm (example_job True) 0) = 2 \<and>
   reply (job_thread asking_llm (example_job True) 0) = Some tool_request \<and>
   invocations (events (job_thread asking_llm (example_job False) 0)) = 1"
  using
    agent_loop_rounds [of asking_llm "example_job True" 0 tool_request None 1 tool_request None 2]
    agent_loop_rounds [of asking_llm "example_job False" 0]
  by (simp add: asking_llm_def example_job_def parse_tool_request
      format_llm_reply_for_display_def)

subsection \<open>The transcript bound\<close>

lemma truncation_marker_length: "length truncation_marker = 19"
  by (simp add: truncation_marker_def)

lemma truncate_transcript_long:
  "length gs > 40000 \<Longrightarrow> truncate_transcript gs = take 40000 gs @ truncation_marker"
  by (simp add: truncate_transcript_def)

lemma execute_tool_calls_Some:
  "tool_calls r \<noteq> [] \<Longrightarrow>
   execute_tool_calls r snap =
     Some (truncate_transcript (foldl (execute_tool_call snap) [] (take 8 (tool_calls r))))"
  by (auto simp: execute_tool_calls_def Let_def)

lemma big_transcript:
  "foldl (execute_tool_call big_snapshot) [] (take 8 (tool_calls dataset_call)) =
     tool_header ''get_dataset_summary'' @ replicate 40000 CHR ''x'' @ [newline] @ tool_footer"
  by (simp add: dataset_call_def big_snapshot_def example_snapshot_def execute_tool_call_def
      tool_source_def ends_with_newline_def tool_header_def)

text \<open>
  Claim C4 (as amended). When the tool executor returns a transcript, it is at most
  40000 characters plus the marker text long. If the blocks of the first eight calls
  add up to more than 40000 characters, the transcript is their first 40000 characters
  followed by the marker text, which is the marker between two newlines (19
  characters): it ends with \<open>...[truncated]...\<close> and a newline and is exactly 40019
  characters long. Otherwise it is the blocks unchanged.
\<close>

theorem transcript_truncation:
  assumes "execute_tool_calls r snap = Some t"
  shows "length t \<le> 40000 + length truncation_marker \<and>
         length truncation_marker = 19 \<and>
         (length (foldl (execute_tool_call snap) [] (take 8 (tool_calls r))) > 40000 \<longrightarrow>
            t = take 40000 (foldl (execute_tool_call snap) [] (take 8 (tool_calls r)))
                  @ truncation_marker \<and>
            length t = 40019 \<and>
            suffix (''...[truncated]...'' @ [newline]) t) \<and>
         (length (foldl (execute_tool_call snap) [] (take 8 (tool_calls r))) \<le> 40000 \<longrightarrow>
            t = foldl (execute_tool_call snap) [] (take 8 (tool_calls r)))"
proof -
  let ?gs = "foldl (execute_tool_call snap) [] (take 8 (tool_calls r))"
  from assms have ne: "tool_calls r \<noteq> []"
    by (auto simp: execute_tool_calls_def Let_def split: if_splits)
  with assms have t: "t = truncate_transcript ?gs"
    by (simp add: execute_tool_calls_Some)
  have m: "truncation_marker = [newline] @ ''...[truncated]...'' @ [newline]"
    by (simp add: truncation_marker_def)
  show ?thesis
  proof (cases "length ?gs > 40000")
    case True
    then have "t = take 40000 ?gs @ truncation_marker"
      using t by (simp add: truncate_transcript_long)
    moreover from this True have "length t = 40019"
      by (simp add: truncation_marker_length)
    moreover have "suffix (''...[truncated]...'' @ [newline]) (take 40000 ?gs @ truncation_marker)"
      unfolding m by (simp add: suffix_def)
    ultimately show ?thesis using True
      by (simp add: truncation_marker_length)
  next
    case False
    then show ?thesis using t
      by (simp add: truncate_transcript_def truncation_marker_length)
  qed
qed

theorem transcript_truncation_witness:
  "length (captured (execute_tool_calls dataset_call big_snapshot)) = 40019 \<and>
   suffix (''...[truncated]...'' @ [newline])
     (captured (execute_tool_calls dataset_call big_snapshot))"
proof -
  let ?gs = "foldl (execute_tool_call big_snapshot) [] (take 8 (tool_calls dataset_call))"
  have len: "length ?gs > 40000"
    by (simp add: big_transcript)
  have ex: "execute_tool_calls dataset_call big_snapshot = Some (truncate_transcript ?gs)"
    by (rule execute_tool_calls_Some) (simp add: dataset_call_def)
  from transcript_truncation [OF ex] len
  have "length (truncate_transcript ?gs) = 40019 \<and>
        suffix (''...[truncated]...'' @ [newline]) (truncate_transcript ?gs)"
    by blast
  then show ?thesis
    unfolding ex captured_def by simp
qed

text \<open>
  The claim as stated fails: on a dataset summary of 40000 characters the transcript
  does not end with \<open>...[truncated]...\<close> (a newline follows), and it is longer than
  40000 plus the 17 characters of that marker.
\<close>

theorem transcript_truncation_counterexample:
  "length (foldl (execute_tool_call big_snapshot) [] (take 8 (tool_calls dataset_call))) > 40000 \<and>
   \<not> (suffix ''...[truncated]...'' (captured (execute_tool_calls dataset_call big_snapshot)) \<and>
      length (captured (execute_tool_calls dataset_call big_snapshot))
        \<le> 40000 + length ''...[truncated]...'')"
proof -
  let ?gs = "foldl (execute_tool_call big_snapshot) [] (take 8 (tool_calls dataset_call))"
  have len: "length ?gs > 40000"
    by (simp add: big_transcript)
  have ex: "execute_tool_calls dataset_call big_snapshot = Some (truncate_transcript ?gs)"
    by (rule execute_tool_calls_Some) (simp add: dataset_call_def)
  have "length (truncate_transcript ?gs) = 40019"
    using len by (simp add: truncate_transcript_long truncation_marker_length)
  then have "length (captured (execute_tool_calls dataset_call big_snapshot)) = 40019"
    unfolding ex captured_def by simp
  with len show ?thesis by simp
qed

subsection \<open>The tail of the command log\<close>

lemma terminated_lines_simps [simp]:
  "terminated_lines [] = []"
  "terminated_lines (l # ls) = l @ newline # terminated_lines ls"
  "terminated_lines (xs @ ys) = terminated_lines xs @ terminated_lines ys"
  by (simp_all add: terminated_lines_def)

lemma tail_scan_skip:
  "(\<And>j. q \<le> j \<Longrightarrow> j < q + k \<Longrightarrow> s ! j \<noteq> newline) \<Longrightarrow>
   tail_scan s nl (q + k) n = tail_scan s nl q n"
  by (induction k) auto

lemma tail_scan_lines:
  assumes "\<forall>l \<in> set A. newline \<notin> set l" and "n \<le> nl"
  shows "tail_scan (terminated_lines A @ rest) nl (length (terminated_lines A)) n =
           (if int (length A) > nl - n
            then length (terminated_lines (take (length A - nat (nl - n)) A))
            else 0)"
  using assms
proof (induction A arbitrary: n rest rule: rev_induct)
  case Nil
  then show ?case by simp
next
  case (snoc l A)
  let ?s = "terminated_lines (A @ [l]) @ rest"
  let ?q = "length (terminated_lines A)"
  have s: "?s = terminated_lines A @ l @ newline # rest" by simp
  have len: "length (terminated_lines (A @ [l])) = Suc (?q + length l)" by simp
  have nl_at: "?s ! (?q + length l) = newline"
    unfolding s by (simp add: nth_append)
  have line: "\<And>j. ?q \<le> j \<Longrightarrow> j < ?q + length l \<Longrightarrow> ?s ! j \<noteq> newline"
  proof -
    fix j assume j: "?q \<le> j" "j < ?q + length l"
    then have lt: "j - ?q < length l" and ge: "\<not> j < ?q" by arith+
    have "?s ! j = l ! (j - ?q)"
      unfolding s using lt ge by (simp add: nth_append)
    moreover have "l ! (j - ?q) \<in> set l" using lt by simp
    ultimately show "?s ! j \<noteq> newline" using snoc.prems(1) by auto
  qed
  show ?case
  proof (cases "n + 1 > nl")
    case True
    with snoc.prems have "n = nl" by simp
    then show ?thesis
      unfolding len using nl_at by simp
  next
    case False
    then have n1: "n + 1 \<le> nl" by simp
    have A: "\<forall>l \<in> set A. newline \<notin> set l" using snoc.prems(1) by simp
    have "tail_scan ?s nl (Suc (?q + length l)) n = tail_scan ?s nl (?q + length l) (n + 1)"
      using nl_at False by simp
    also have "\<dots> = tail_scan ?s nl ?q (n + 1)"
      by (rule tail_scan_skip) (rule line)
    also have "\<dots> = (if int (length A) > nl - (n + 1)
            then length (terminated_lines (take (length A - nat (nl - (n + 1))) A))
            else 0)"
      using snoc.IH [OF A n1, of "l @ newline # rest"] by simp
    also have "\<dots> = (if int (length (A @ [l])) > nl - n
            then length (terminated_lines (take (length (A @ [l]) - nat (nl - n)) (A @ [l])))
            else 0)"
    proof -
      have e: "length (A @ [l]) - nat (nl - n) = length A - nat (nl - (n + 1))"
        using n1 by (simp add: nat_diff_distrib) 
      have "length A - nat (nl - (n + 1)) \<le> length A" by simp
      then show ?thesis unfolding e using n1 by auto
    qed
    finally show ?thesis unfolding len .
  qed
qed

lemma tail_n_lines_lines:
  assumes "\<forall>l \<in> set ls. newline \<notin> set l" and "0 < k"
  shows "tail_n_lines (Some (terminated_lines ls)) k =
           take 32000 (terminated_lines (drop (length ls - nat k) ls))"
proof -
  have scan: "tail_scan (terminated_lines ls) k (length (terminated_lines ls)) 0 =
           (if int (length ls) > k
            then length (terminated_lines (take (length ls - nat k) ls))
            else 0)"
    using tail_scan_lines [OF assms(1), of 0 k "[]"] assms(2) by simp
  have split: "terminated_lines ls =
      terminated_lines (take (length ls - nat k) ls) @ terminated_lines (drop (length ls - nat k) ls)"
    by (metis append_take_drop_id terminated_lines_simps(3))
  have d: "drop (tail_scan (terminated_lines ls) k (length (terminated_lines ls)) 0) (terminated_lines ls)
        = terminated_lines (drop (length ls - nat k) ls)"
  proof (cases "int (length ls) > k")
    case True
    have "drop (length (terminated_lines (take (length ls - nat k) ls))) (terminated_lines ls)
            = terminated_lines (drop (length ls - nat k) ls)"
      by (subst split) simp
    with True show ?thesis
      unfolding scan by simp
  next
    case False
    then have "length ls - nat k = 0" by simp
    with False show ?thesis unfolding scan by simp
  qed
  have "tail_n_lines (Some (terminated_lines ls)) k =
          (let out = drop (tail_scan (terminated_lines ls) k (length (terminated_lines ls)) 0)
                       (terminated_lines ls)
           in if length out > 32000 then take 32000 out else out)"
    using assms(2) by (simp add: tail_n_lines_def Let_def)
  also have "\<dots> = take 32000 (terminated_lines (drop (length ls - nat k) ls))"
    unfolding d Let_def by simp
  finally show ?thesis .
qed


lemma parse_tool_call_default:
  assumes "parse_tool_call obj = Some tc"
    and "case json_extract_object_span obj ''args'' of
           None \<Rightarrow> True
         | Some (a, e) \<Rightarrow> json_find_field_value_start (take (e + 1) a) ''n_lines'' = None"
  shows "n_lines tc = 50"
  using assms
  by (auto simp: parse_tool_call_def Let_def split: option.splits if_splits prod.splits)

text \<open>
  Claim C7 (as amended). Let the command log consist of the newline-terminated lines
  \<open>ls\<close>. Executing \<open>get_command_log_tail\<close> with \<open>n_lines = k\<close>, \<open>0 < k \<le> length ls\<close>,
  emits the block whose body is the last \<open>k\<close> lines cut, as a whole, to their first
  32000 characters: exactly the last \<open>k\<close> lines when these are at most 32000 characters
  together. There is no cap for each line. A \<open>k \<le> 0\<close> gives what \<open>k = 50\<close> gives, and a
  decoded call has \<open>n_lines = 50\<close> when the entry has no \<open>args\<close> object or its \<open>args\<close>
  have no \<open>n_lines\<close> field.
\<close>

theorem command_log_tail:
  assumes lines: "\<forall>l \<in> set ls. newline \<notin> set l"
  shows
    "(0 < k \<and> k \<le> int (length ls) \<longrightarrow>
        tail_n_lines (Some (terminated_lines ls)) k =
          take 32000 (terminated_lines (drop (length ls - nat k) ls)) \<and>
        execute_tool_call (snap\<lparr>command_log := Some (terminated_lines ls)\<rparr>) gs
            \<lparr>name = ''get_command_log_tail'', n_lines = k, style = sty\<rparr> =
          ends_with_newline
            (gs @ tool_header ''get_command_log_tail''
                @ take 32000 (terminated_lines (drop (length ls - nat k) ls)))
            @ tool_footer) \<and>
     (k \<le> 0 \<longrightarrow>
        tail_n_lines (Some (terminated_lines ls)) k =
          tail_n_lines (Some (terminated_lines ls)) 50) \<and>
     (parse_tool_call obj = Some tc \<and>
      (case json_extract_object_span obj ''args'' of
         None \<Rightarrow> True
       | Some (a, e) \<Rightarrow> json_find_field_value_start (take (e + 1) a) ''n_lines'' = None) \<longrightarrow>
        n_lines tc = 50)"
proof (intro conjI impI)
  assume k: "0 < k \<and> k \<le> int (length ls)"
  then show t: "tail_n_lines (Some (terminated_lines ls)) k =
          take 32000 (terminated_lines (drop (length ls - nat k) ls))"
    using lines by (simp add: tail_n_lines_lines)
  show "execute_tool_call (snap\<lparr>command_log := Some (terminated_lines ls)\<rparr>) gs
            \<lparr>name = ''get_command_log_tail'', n_lines = k, style = sty\<rparr> =
          ends_with_newline
            (gs @ tool_header ''get_command_log_tail''
                @ take 32000 (terminated_lines (drop (length ls - nat k) ls)))
            @ tool_footer"
    by (simp add: execute_tool_call_def t)
next
  assume "k \<le> 0"
  then show "tail_n_lines (Some (terminated_lines ls)) k =
          tail_n_lines (Some (terminated_lines ls)) 50"
    by (simp add: tail_n_lines_def)
next
  assume "parse_tool_call obj = Some tc \<and>
      (case json_extract_object_span obj ''args'' of
         None \<Rightarrow> True
       | Some (a, e) \<Rightarrow> json_find_field_value_start (take (e + 1) a) ''n_lines'' = None)"
  then show "n_lines tc = 50"
    using parse_tool_call_default by blast
qed

lemma parse_log_tail_request:
  "parse_llm_json_reply log_tail_request =
     \<lparr>assistant_text = None, proposed_insert = None,
      tool_calls = [\<lparr>name = ''get_command_log_tail'', n_lines = 3, style = None\<rparr>]\<rparr>"
  unfolding log_tail_request_def by code_simp

lemma parse_tool_call_no_args:
  \<open>parse_tool_call ''{"name":"get_command_log_tail"}'' =
     Some \<lparr>name = ''get_command_log_tail'', n_lines = 50, style = None\<rparr>\<close>
  \<open>json_extract_object_span ''{"name":"get_command_log_tail"}'' ''args'' = None\<close>
  by code_simp+

theorem command_log_tail_witness:
  \<open>tool_calls (parse_llm_json_reply log_tail_request) =
     [\<lparr>name = ''get_command_log_tail'', n_lines = 3, style = None\<rparr>] \<and>
   execute_tool_call (example_snapshot\<lparr>command_log := Some (terminated_lines ten_lines)\<rparr>) []
       \<lparr>name = ''get_command_log_tail'', n_lines = 3, style = None\<rparr> =
     tool_header ''get_command_log_tail''
       @ ''corr'' @ [newline] @ ''smpl 1 50'' @ [newline] @ ''ols y 0 x'' @ [newline]
       @ tool_footer \<and>
   tail_n_lines (Some (terminated_lines ten_lines)) 0 = terminated_lines ten_lines \<and>
   n_lines (the (parse_tool_call ''{"name":"get_command_log_tail"}'')) = 50\<close>
proof -
  have l: "\<forall>l \<in> set ten_lines. newline \<notin> set l"
    by (simp add: ten_lines_def)
  have fifty: "tail_n_lines (Some (terminated_lines ten_lines)) 50 = terminated_lines ten_lines"
    using tail_n_lines_lines [OF l, of 50] by (simp add: ten_lines_def)
  from
    command_log_tail [OF l, of 3 example_snapshot "[]" None
      \<open>''{"name":"get_command_log_tail"}''\<close>
      "\<lparr>name = ''get_command_log_tail'', n_lines = 50, style = None\<rparr>"]
    command_log_tail [OF l, of 0]
  show ?thesis
    by (simp add: parse_log_tail_request parse_tool_call_no_args fifty)
      (simp add: ten_lines_def ends_with_newline_def tool_header_def)
qed

text \<open>
  The claim as stated fails: of two lines of 20000 characters each, both within a cap
  of 32000 for each line, the last two lines come back cut to 32000 characters in all.
\<close>

theorem command_log_tail_counterexample:
  "length (terminated_lines (map (take 32000) two_long_lines)) = 40002 \<and>
   length (tail_n_lines (Some (terminated_lines two_long_lines)) 2) = 32000 \<and>
   tail_n_lines (Some (terminated_lines two_long_lines)) 2
     \<noteq> terminated_lines (map (take 32000) two_long_lines)"
proof -
  have l: "\<forall>l \<in> set two_long_lines. newline \<notin> set l"
    by (simp add: two_long_lines_def)
  have a: "length (terminated_lines (map (take 32000) two_long_lines)) = 40002"
    by (simp add: two_long_lines_def)
  have b: "length (tail_n_lines (Some (terminated_lines two_long_lines)) 2) = 32000"
    using tail_n_lines_lines [OF l, of 2] by (simp add: two_long_lines_def)
  from a b show ?thesis by auto
qed

subsection \<open>Errors as values\<close>

lemma set_spawn_error_buf_given:
  "set_spawn_error_buf pfx gerr True ch = (Some E_EXTERNAL, Some (spawn_error_text pfx gerr), ch)"
  by (simp add: set_spawn_error_buf_def)

lemma check_child_status_buf_given:
  "check_child_status_buf h prog st out err True = (e, m) \<Longrightarrow> e \<noteq> None \<Longrightarrow> m \<noteq> None"
  by (auto simp: check_child_status_buf_def Let_def split: option.splits)

lemma run_codex_cli_buf_channel:
  assumes "run_codex_cli_buf h bin prm True ch = (e, rep, m, ch')"
  shows "ch' = ch \<and> (e \<noteq> None \<longrightarrow> m \<noteq> None)"
  using assms
  by (auto simp: run_codex_cli_buf_def set_spawn_error_buf_given read_reply_file_buf_def
      split: sum.splits option.splits prod.splits if_splits
      dest: check_child_status_buf_given)

lemma run_gemini_cli_buf_channel:
  assumes "run_gemini_cli_buf h bin prm True ch = (e, rep, m, ch')"
  shows "ch' = ch \<and> (e \<noteq> None \<longrightarrow> m \<noteq> None)"
  using assms
  by (auto simp: run_gemini_cli_buf_def set_spawn_error_buf_given Let_def
      split: sum.splits option.splits prod.splits if_splits
      dest: check_child_status_buf_given)

text \<open>
  With a provider selected by the caller and \<open>errmsg\<close> given, the global channel is left
  as it was and every failure stores a message in \<open>*errmsg\<close>.
\<close>

lemma complete_with_error_selected_provider:
  assumes "gretl_llm_complete_with_error h p prm True True ch = (e, rep, m, ch')"
    and "p \<noteq> GRETL_LLM_NONE"
  shows "ch' = ch \<and> (e \<noteq> None \<longrightarrow> m \<noteq> None)"
  using assms
  by (auto simp: gretl_llm_complete_with_error_def Let_def
      split: if_splits dest: run_codex_cli_buf_channel run_gemini_cli_buf_channel)

text \<open>
  Claim C9. The claim is that \<open>gretl_llm_complete_with_error\<close>, called with \<open>errmsg\<close> not
  \<open>NULL\<close>, reports every failure in \<open>*errmsg\<close> and leaves the global channel untouched
  on all paths. The code does not: called with \<open>GRETL_LLM_NONE\<close> on a host whose
  \<open>GRETL_LLM_PROVIDER\<close> is \<open>claude\<close>, it resolves the default provider through
  \<open>gretl_llm_provider_from_string\<close>, which writes \<open>Unknown LLM provider 'claude'
  (expected codex|gemini)\<close> to the global channel, before it reports the missing
  executable in \<open>*errmsg\<close>.
\<close>

theorem complete_with_error_writes_global_channel:
  "gretl_llm_complete_with_error misconfigured_host GRETL_LLM_NONE (Some ''hi'') True True [] =
     (Some E_EXTERNAL, None, Some ''Cannot find codex executable (set GRETL_CODEX_BIN)'',
      [''Unknown LLM provider '' @ [CHR 0x27] @ ''claude'' @ [CHR 0x27]
         @ '' (expected codex|gemini)''])"
  by (simp add: gretl_llm_complete_with_error_def misconfigured_host_def example_host_def
      gretl_llm_default_provider_def gretl_llm_provider_from_string_def strcaseeq_def
      g_ascii_tolower_def find_executable_def captured_def gretl_errmsg_set_def
      gretl_llm_provider_name_def default_codex_bin_def)

subsection \<open>Decoding string literals\<close>

lemma json_parse_string_loop_units:
  "\<forall>u \<in> set us. unit_valid u \<Longrightarrow>
   json_parse_string_loop False gs (literal_text us @ rest) =
     json_parse_string_loop False (gs @ map unit_char us) rest"
proof (induction us arbitrary: gs)
  case Nil
  then show ?case by (simp add: literal_text_def)
next
  case (Cons u us)
  then have IH: "\<And>gs. json_parse_string_loop False gs (literal_text us @ rest) =
     json_parse_string_loop False (gs @ map unit_char us) rest"
    by simp
  have step: "json_parse_string_loop False gs (unit_text u @ literal_text us @ rest) =
          json_parse_string_loop False (gs @ [unit_char u]) (literal_text us @ rest)"
  proof (cases u)
    case (Plain c)
    with Cons.prems show ?thesis by simp
  next
    case (Escape c)
    with Cons.prems show ?thesis by simp
  next
    case (UEscape a b c d)
    with Cons.prems show ?thesis
      by (simp add: u_escape_char_def mult.commute)
  qed
  show ?case
    using step IH [of "gs @ [unit_char u]"] by (simp add: literal_text_def)
qed

lemma json_skip_ws_spaces:
  "\<forall>c \<in> set ws. g_ascii_isspace c \<Longrightarrow> \<not> g_ascii_isspace x \<Longrightarrow>
   json_skip_ws (ws @ x # p) = x # p"
  by (induction ws) auto

lemma dquote_not_space: "\<not> g_ascii_isspace dquote"
  by (simp add: g_ascii_isspace_def)

lemma json_parse_string_loop_no_quote:
  "dquote \<notin> set p \<Longrightarrow> json_parse_string_loop esc gs p = None"
proof (induction esc gs p rule: json_parse_string_loop.induct)
  case (1 esc gs)
  then show ?case by simp
next
  case (2 gs c p)
  from "2.prems" have q: "dquote \<notin> set p" "dquote \<notin> set (drop 4 p)"
    by (auto dest: in_set_dropD)
  with "2.IH" show ?case by simp
next
  case (3 gs c p)
  from "3.prems" have q: "dquote \<notin> set p" "c \<noteq> dquote"
    by auto
  with "3.IH" show ?case by simp
qed


text \<open>
  Claim C5. Let a string literal be written, after white space, with well-formed
  pieces \<open>us\<close> between two quotes. \<open>json_parse_string\<close> returns the characters of the
  pieces, one for each, and the text after the closing quote: the standard escapes
  \<open>\" \\ \/ \b \f \n \r \t\<close> give their literal characters, \<open>\u00XX\<close> gives the single
  byte \<open>XX\<close>, and any other \<open>\uXXXX\<close> gives \<open>?\<close> and no failure. Without the closing
  quote (the text ends after the pieces, or after a backslash that follows them, or
  holds no further quote character at all) it returns no match.
\<close>

theorem json_parse_string_decodes:
  assumes units: "\<forall>u \<in> set us. unit_valid u"
    and spaces: "\<forall>c \<in> set ws. g_ascii_isspace c"
  shows "json_parse_string (ws @ [dquote] @ literal_text us @ [dquote] @ rest)
           = Some (map unit_char us, rest) \<and>
         json_parse_string (ws @ [dquote] @ literal_text us) = None \<and>
         json_parse_string (ws @ [dquote] @ literal_text us @ [bslash]) = None \<and>
         (dquote \<notin> set body \<longrightarrow> json_parse_string (ws @ [dquote] @ body) = None)"
proof (intro conjI impI)
  have skip: "\<And>p. json_skip_ws (ws @ dquote # p) = dquote # p"
    using json_skip_ws_spaces [OF spaces dquote_not_space] by simp
  show "json_parse_string (ws @ [dquote] @ literal_text us @ [dquote] @ rest)
           = Some (map unit_char us, rest)"
    using json_parse_string_loop_units [OF units, of "[]" "dquote # rest"]
    by (simp add: json_parse_string_def skip)
  show "json_parse_string (ws @ [dquote] @ literal_text us) = None"
    using json_parse_string_loop_units [OF units, of "[]" "[]"]
    by (simp add: json_parse_string_def skip)
  show "json_parse_string (ws @ [dquote] @ literal_text us @ [bslash]) = None"
    using json_parse_string_loop_units [OF units, of "[]" "[bslash]"]
    by (simp add: json_parse_string_def skip)
  show "json_parse_string (ws @ [dquote] @ body) = None" if "dquote \<notin> set body"
    using that by (simp add: json_parse_string_def skip json_parse_string_loop_no_quote)
qed

theorem json_parse_string_decodes_witness:
  "json_parse_string
     ('' '' @ [dquote] @ ''a'' @ [bslash] @ ''nb'' @ [bslash] @ ''tc'' @ [bslash] @ ''u00e9''
        @ [bslash] @ ''u1234'' @ [bslash, dquote] @ [dquote] @ '', 1}'')
     = Some ([CHR ''a'', CHR 0x0A, CHR ''b'', CHR 0x09, CHR ''c'', CHR 0xE9, CHR ''?'', dquote],
             '', 1}'') \<and>
   json_parse_string ([dquote] @ ''abc'' @ [bslash, dquote]) = None"
  using
    json_parse_string_decodes [of
      "[Plain CHR ''a'', Escape CHR ''n'', Plain CHR ''b'', Escape CHR ''t'', Plain CHR ''c'',
        UEscape CHR ''0'' CHR ''0'' CHR ''e'' CHR ''9'',
        UEscape CHR ''1'' CHR ''2'' CHR ''3'' CHR ''4'', Escape dquote]"
      "'' ''" "'', 1}''" "[]"]
    json_parse_string_decodes [of "[Plain CHR ''a'', Plain CHR ''b'', Plain CHR ''c'', Escape dquote]"
      "[]" "[]" "[]"]
  by (simp add: literal_text_def g_ascii_isspace_def g_ascii_isxdigit_def
      g_ascii_xdigit_value_def char_of_def)

subsection \<open>Matching delimiters\<close>

lemma skip_literal_drop: "skip_literal cs = drop (literal_length cs) cs"
  unfolding literal_length_def
proof (induction cs rule: skip_literal.induct)
  case 1 then show ?case by simp
next
  case (2 c) then show ?case by simp
next
  case (3 c x cs)
  have l1: "length (skip_literal cs) \<le> length cs" by (rule skip_literal_length)
  have l2: "length (skip_literal (x # cs)) \<le> Suc (length cs)"
    using skip_literal_length [of "x # cs"] by simp
  show ?case
  proof (cases "c = bslash")
    case True
    with 3 l1 show ?thesis by (simp add: Suc_diff_le)
  next
    case False
    show ?thesis
    proof (cases "c = dquote")
      case True
      with False show ?thesis by simp
    next
      case nq: False
      with False 3 l2 show ?thesis by (simp add: Suc_diff_le)
    qed
  qed
qed

lemma match_closing_in_literal:
  "json_match_closing_loop opn cls d True False i cs =
     json_match_closing_loop opn cls d False False (i + literal_length cs) (skip_literal cs)"
  unfolding literal_length_def
proof (induction cs arbitrary: i rule: skip_literal.induct)
  case 1 then show ?case by simp
next
  case (2 c) then show ?case by simp
next
  case (3 c x cs)
  have l1: "length (skip_literal cs) \<le> length cs" by (rule skip_literal_length)
  have l2: "length (skip_literal (x # cs)) \<le> Suc (length cs)"
    using skip_literal_length [of "x # cs"] by simp
  show ?case
  proof (cases "c = bslash")
    case True
    with 3(1) [of "Suc (Suc i)"] l1 show ?thesis by (simp add: Suc_diff_le)
  next
    case False
    show ?thesis
    proof (cases "c = dquote")
      case True
      with False show ?thesis by simp
    next
      case nq: False
      with False 3(2) [of "Suc i"] l2 show ?thesis by (simp add: Suc_diff_le)
    qed
  qed
qed

lemma skip_literal_take:
  "skip_literal (take n cs) =
     (if literal_length cs \<le> n then take (n - literal_length cs) (skip_literal cs) else [])"
  unfolding literal_length_def
proof (induction cs arbitrary: n rule: skip_literal.induct)
  case 1 then show ?case by simp
next
  case (2 c) then show ?case by (cases n) auto
next
  case (3 c x cs)
  have l1: "length (skip_literal cs) \<le> length cs" by (rule skip_literal_length)
  have l2: "length (skip_literal (x # cs)) \<le> Suc (length cs)"
    using skip_literal_length [of "x # cs"] by simp
  show ?case
  proof (cases n)
    case 0
    then show ?thesis by simp
  next
    case (Suc m)
    show ?thesis
    proof (cases m)
      case 0
      with Suc l1 l2 show ?thesis by (auto simp: Suc_diff_le)
    next
      case (Suc m')
      note m = \<open>n = Suc m\<close> Suc
      show ?thesis
      proof (cases "c = bslash")
        case True
        with 3(1) [of m'] l1 m show ?thesis by (simp add: Suc_diff_le)
      next
        case False
        show ?thesis
        proof (cases "c = dquote")
          case True
          with False m show ?thesis by simp
        next
          case nq: False
          with False 3(2) [of m] l2 m show ?thesis by (simp add: Suc_diff_le)
        qed
      qed
    qed
  qed
qed


lemma net_depth_Nil [simp]: "net_depth opn cls [] = 0"
  by (simp add: net_depth.simps)

lemma net_depth_quote [simp]:
  "net_depth opn cls (dquote # cs) = net_depth opn cls (skip_literal cs)"
  by (simp add: net_depth.simps)

lemma net_depth_other:
  "c \<noteq> dquote \<Longrightarrow>
   net_depth opn cls (c # cs) =
     (if c = opn then 1 else if c = cls then - 1 else 0) + net_depth opn cls cs"
  by (simp add: net_depth.simps)

lemma literal_length_le: "literal_length cs \<le> length cs"
  by (simp add: literal_length_def)

lemma length_skip_literal: "length (skip_literal cs) = length cs - literal_length cs"
  using skip_literal_length [of cs] by (simp add: literal_length_def)

lemma closes_at_shift:
  assumes c: "c \<noteq> dquote" and d: "0 < d"
    and k: "closes_at opn cls (d + (if c = opn then 1 else if c = cls then - 1 else 0)) cs k"
  shows "closes_at opn cls d (c # cs) (Suc k)"
proof -
  have all: "0 < d + net_depth opn cls (take j (c # cs))" if "j \<le> Suc k" for j
  proof (cases j)
    case 0
    with d show ?thesis by simp
  next
    case (Suc j')
    with that k c show ?thesis
      by (auto simp: closes_at_def net_depth_other)
  qed
  from k c show ?thesis
    unfolding closes_at_def using all by (auto simp: net_depth_other)
qed

lemma never_closes_shift:
  assumes c: "c \<noteq> dquote" and d: "0 < d"
    and k: "never_closes opn cls (d + (if c = opn then 1 else if c = cls then - 1 else 0)) cs"
  shows "never_closes opn cls d (c # cs)"
  unfolding never_closes_def
proof (intro allI impI)
  fix j assume j: "j \<le> length (c # cs)"
  show "0 < d + net_depth opn cls (take j (c # cs))"
  proof (cases j)
    case 0
    with d show ?thesis by simp
  next
    case (Suc j')
    with j k c show ?thesis
      by (auto simp: never_closes_def net_depth_other)
  qed
qed

lemma net_depth_take_quote:
  "net_depth opn cls (take (Suc j) (dquote # cs)) =
     (if literal_length cs \<le> j
      then net_depth opn cls (take (j - literal_length cs) (skip_literal cs)) else 0)"
  by (simp add: skip_literal_take)

lemma closes_at_literal:
  assumes d: "0 < d" and k: "closes_at opn cls d (skip_literal cs) k"
  shows "closes_at opn cls d (dquote # cs) (Suc (literal_length cs + k))"
proof -
  let ?L = "literal_length cs"
  from k have kl: "k < length cs - ?L"
    by (simp add: closes_at_def length_skip_literal)
  then have lt: "?L + k < length cs" by simp
  have nth: "(dquote # cs) ! Suc (?L + k) = cls"
    using k lt by (simp add: closes_at_def skip_literal_drop)
  have zero: "d + net_depth opn cls (take (Suc (Suc (?L + k))) (dquote # cs)) = 0"
    using k by (simp only: net_depth_take_quote) (simp add: closes_at_def)
  have all: "0 < d + net_depth opn cls (take j (dquote # cs))" if "j \<le> Suc (?L + k)" for j
  proof (cases j)
    case 0
    with d show ?thesis by simp
  next
    case (Suc j')
    show ?thesis
    proof (cases "?L \<le> j'")
      case True
      with that Suc have "j' - ?L \<le> k" by simp
      with k have "0 < d + net_depth opn cls (take (j' - ?L) (skip_literal cs))"
        by (simp add: closes_at_def)
      with True show ?thesis unfolding Suc by (simp only: net_depth_take_quote) simp
    next
      case False
      with d show ?thesis unfolding Suc by (simp only: net_depth_take_quote) simp
    qed
  qed
  show ?thesis
    unfolding closes_at_def using lt nth zero all by simp
qed

lemma never_closes_literal:
  assumes d: "0 < d" and k: "never_closes opn cls d (skip_literal cs)"
  shows "never_closes opn cls d (dquote # cs)"
  unfolding never_closes_def
proof (intro allI impI)
  let ?L = "literal_length cs"
  fix j assume j: "j \<le> length (dquote # cs)"
  show "0 < d + net_depth opn cls (take j (dquote # cs))"
  proof (cases j)
    case 0
    with d show ?thesis by simp
  next
    case (Suc j')
    show ?thesis
    proof (cases "?L \<le> j'")
      case True
      with j Suc have "j' - ?L \<le> length (skip_literal cs)"
        by (simp add: length_skip_literal)
      with k have "0 < d + net_depth opn cls (take (j' - ?L) (skip_literal cs))"
        by (simp add: never_closes_def)
      with True show ?thesis unfolding Suc by (simp only: net_depth_take_quote) simp
    next
      case False
      with d show ?thesis unfolding Suc by (simp only: net_depth_take_quote) simp
    qed
  qed
qed


lemma match_closing_loop_depth:
  assumes "1 \<le> d"
  shows "case json_match_closing_loop opn cls d False False i p of
           None \<Rightarrow> never_closes opn cls d p
         | Some r \<Rightarrow> (\<exists>k. r = i + k \<and> closes_at opn cls d p k)"
  using assms
proof (induction p arbitrary: d i rule: length_induct)
  case (1 p)
  note IH = "1.IH" [rule_format]
  from "1.prems" have d: "0 < d" by simp
  show ?case
  proof (cases p)
    case Nil
    with d show ?thesis by (simp add: never_closes_def)
  next
    case (Cons c cs)
    show ?thesis
    proof (cases "c = dquote")
      case True
      have len: "length (skip_literal cs) < length p"
        using skip_literal_length [of cs] Cons by simp
      have loop: "json_match_closing_loop opn cls d False False i p =
          json_match_closing_loop opn cls d False False (Suc i + literal_length cs) (skip_literal cs)"
        using Cons True by (simp add: match_closing_in_literal)
      have res: "case json_match_closing_loop opn cls d False False
                        (Suc i + literal_length cs) (skip_literal cs) of
                   None \<Rightarrow> never_closes opn cls d (skip_literal cs)
                 | Some r \<Rightarrow>
                     (\<exists>k. r = Suc i + literal_length cs + k
                        \<and> closes_at opn cls d (skip_literal cs) k)"
        by (rule IH [OF len "1.prems"])
      show ?thesis
      proof (cases "json_match_closing_loop opn cls d False False
                        (Suc i + literal_length cs) (skip_literal cs)")
        case None
        with res have "never_closes opn cls d (skip_literal cs)" by simp
        then have "never_closes opn cls d p"
          unfolding Cons True by (rule never_closes_literal [OF d])
        with loop None show ?thesis by simp
      next
        case (Some r)
        with res obtain k where r: "r = Suc i + literal_length cs + k"
          and k: "closes_at opn cls d (skip_literal cs) k"
          by auto
        from k have "closes_at opn cls d p (Suc (literal_length cs + k))"
          unfolding Cons True by (rule closes_at_literal [OF d])
        moreover have "r = i + Suc (literal_length cs + k)" using r by simp
        ultimately show ?thesis using loop Some by auto
      qed
    next
      case nq: False
      let ?d' = "d + (if c = opn then 1 else if c = cls then - 1 else 0)"
      have len: "length cs < length p" using Cons by simp
      show ?thesis
      proof (cases "c \<noteq> opn \<and> c = cls \<and> d = 1")
        case True
        then have co: "cls \<noteq> opn" and cc: "c = cls" and d1: "d = 1"
          by auto
        have "json_match_closing_loop opn cls d False False i p = Some i"
          using Cons nq co cc d1 by simp
        moreover have "closes_at opn cls d p 0"
          using Cons nq co cc d1 by (simp add: closes_at_def net_depth_other)
        ultimately show ?thesis by simp
      next
        case False
        then have d': "1 \<le> ?d'" using "1.prems" by auto
        have loop: "json_match_closing_loop opn cls d False False i p =
          json_match_closing_loop opn cls ?d' False False (Suc i) cs"
          using Cons nq False by auto
        have res: "case json_match_closing_loop opn cls ?d' False False (Suc i) cs of
                     None \<Rightarrow> never_closes opn cls ?d' cs
                   | Some r \<Rightarrow> (\<exists>k. r = Suc i + k \<and> closes_at opn cls ?d' cs k)"
          by (rule IH [OF len d'])
        show ?thesis
        proof (cases "json_match_closing_loop opn cls ?d' False False (Suc i) cs")
          case None
          with res have "never_closes opn cls ?d' cs" by simp
          then have "never_closes opn cls d p"
            unfolding Cons by (rule never_closes_shift [OF nq d])
          with loop None show ?thesis by simp
        next
          case (Some r)
          with res obtain k where r: "r = Suc i + k" and k: "closes_at opn cls ?d' cs k"
            by auto
          from k have "closes_at opn cls d p (Suc k)"
            unfolding Cons by (rule closes_at_shift [OF nq d])
          moreover have "r = i + Suc k" using r by simp
          ultimately show ?thesis using loop Some by auto
        qed
      qed
    qed
  qed
qed

text \<open>
  Claim C6. Let \<open>opn\<close> be a brace or a bracket (any character but the quote). When
  \<open>json_match_closing\<close> returns a position \<open>k\<close>, the text starts with \<open>opn\<close>, the closing
  delimiter stands at \<open>k\<close>, and the text from the opening delimiter to \<open>k\<close> inclusive is
  balanced, delimiters inside string literals (also after escaped quotes) left out:
  its nesting depth is zero, and the depth of every shorter part that is not empty is
  positive, so \<open>k\<close> is the matching delimiter and no earlier one. It returns not-found
  exactly when the text does not start with \<open>opn\<close> or the depth never returns to zero.
\<close>

theorem json_match_closing_balanced:
  assumes opn: "opn \<noteq> dquote"
  shows "(json_match_closing s opn cls = Some k \<longrightarrow>
            k < length s \<and> s ! 0 = opn \<and> s ! k = cls \<and>
            net_depth opn cls (take (Suc k) s) = 0 \<and>
            (\<forall>j. 0 < j \<and> j \<le> k \<longrightarrow> 0 < net_depth opn cls (take j s))) \<and>
         (json_match_closing s opn cls = None \<longleftrightarrow>
            s = [] \<or> hd s \<noteq> opn \<or>
            (\<forall>j. 0 < j \<and> j \<le> length s \<longrightarrow> 0 < net_depth opn cls (take j s)))"
proof (cases s)
  case Nil
  then show ?thesis by (simp add: json_match_closing_def)
next
  case (Cons c cs)
  show ?thesis
  proof (cases "c = opn")
    case False
    with Cons show ?thesis by (simp add: json_match_closing_def)
  next
    case True
    have start: "json_match_closing s opn cls = json_match_closing_loop opn cls 1 False False 1 cs"
      using Cons True opn by (simp add: json_match_closing_def)
    have nd: "net_depth opn cls (take (Suc j) s) = 1 + net_depth opn cls (take j cs)" for j
      using Cons True opn by (simp add: net_depth_other)
    have spec: "case json_match_closing_loop opn cls 1 False False 1 cs of
           None \<Rightarrow> never_closes opn cls 1 cs
         | Some r \<Rightarrow> (\<exists>k. r = 1 + k \<and> closes_at opn cls 1 cs k)"
      by (rule match_closing_loop_depth) simp
    show ?thesis
    proof (cases "json_match_closing_loop opn cls 1 False False 1 cs")
      case None
      with spec have never: "never_closes opn cls 1 cs" by simp
      have "0 < net_depth opn cls (take j s)" if "0 < j" "j \<le> length s" for j
      proof -
        from that obtain j' where j': "j = Suc j'" by (cases j) auto
        with that Cons have "j' \<le> length cs" by simp
        with never show ?thesis unfolding j' nd by (simp add: never_closes_def)
      qed
      with None show ?thesis unfolding start by simp
    next
      case (Some r)
      with spec obtain k' where r: "r = Suc k'" and cl: "closes_at opn cls 1 cs k'"
        by auto
      from cl have lt: "k' < length cs" and at: "cs ! k' = cls"
        and zero: "1 + net_depth opn cls (take (Suc k') cs) = 0"
        and pos: "\<And>j. j \<le> k' \<Longrightarrow> 0 < 1 + net_depth opn cls (take j cs)"
        by (auto simp: closes_at_def)
      have pos': "0 < net_depth opn cls (take j s)" if "0 < j" "j \<le> r" for j
      proof -
        from that obtain j' where j': "j = Suc j'" by (cases j) auto
        with that r have "j' \<le> k'" by simp
        then show ?thesis unfolding j' nd by (rule pos)
      qed
      have z: "net_depth opn cls (take (Suc r) s) = 0"
        unfolding nd r using zero by simp
      have notall: "\<not> (\<forall>j. 0 < j \<and> j \<le> length s \<longrightarrow> 0 < net_depth opn cls (take j s))"
      proof
        assume a: "\<forall>j. 0 < j \<and> j \<le> length s \<longrightarrow> 0 < net_depth opn cls (take j s)"
        have "Suc r \<le> length s" using r lt Cons by simp
        with a have "0 < net_depth opn cls (take (Suc r) s)" by simp
        with z show False by simp
      qed
      show ?thesis
        unfolding start Some
        using r lt at z pos' notall Cons True by auto
    qed
  qed
qed

theorem json_match_closing_balanced_witness:
  "json_match_closing nested_example CHR ''{'' CHR ''}'' = Some 17 \<and>
   length nested_example = 18 \<and>
   net_depth CHR ''{'' CHR ''}'' nested_example = 0 \<and>
   0 < net_depth CHR ''{'' CHR ''}'' (take 8 nested_example) \<and>
   json_match_closing unclosed_example CHR ''{'' CHR ''}'' = None \<and>
   0 < net_depth CHR ''{'' CHR ''}'' unclosed_example"
proof -
  have a: "json_match_closing nested_example CHR ''{'' CHR ''}'' = Some 17"
    by (simp add: json_match_closing_def nested_example_def)
  have b: "json_match_closing unclosed_example CHR ''{'' CHR ''}'' = None"
    by (simp add: json_match_closing_def unclosed_example_def)
  have la: "length nested_example = 18" and lb: "length unclosed_example = 17"
    and hb: "unclosed_example \<noteq> []" "hd unclosed_example = CHR ''{''"
    by (simp_all add: nested_example_def unclosed_example_def)
  from json_match_closing_balanced [of "CHR ''{''" nested_example "CHR ''}''" 17] a
  have "net_depth CHR ''{'' CHR ''}'' (take (Suc 17) nested_example) = 0"
    and "\<forall>j. 0 < j \<and> j \<le> 17 \<longrightarrow> 0 < net_depth CHR ''{'' CHR ''}'' (take j nested_example)"
    by simp_all
  then have c: "net_depth CHR ''{'' CHR ''}'' nested_example = 0"
    and d: "0 < net_depth CHR ''{'' CHR ''}'' (take 8 nested_example)"
    using la by auto
  from json_match_closing_balanced [of "CHR ''{''" unclosed_example "CHR ''}''" 0] b hb
  have "\<forall>j. 0 < j \<and> j \<le> length unclosed_example
          \<longrightarrow> 0 < net_depth CHR ''{'' CHR ''}'' (take j unclosed_example)"
    by simp
  note never = this [rule_format]
  have "0 < net_depth CHR ''{'' CHR ''}'' (take (length unclosed_example) unclosed_example)"
    by (rule never) (simp add: lb)
  then have e: "0 < net_depth CHR ''{'' CHR ''}'' unclosed_example" by simp
  from a b c d e la show ?thesis by simp
qed

subsection \<open>The bound on tool calls\<close>





















end
